theory Spec2Isabelle
  imports Complex_Main
begin

section \<open>Data model of \<^verbatim>\<open>dqn_agent.py\<close>\<close>

text \<open>
  Exceptions raised by the libraries the module calls (\<^verbatim>\<open>collections.deque\<close>,
  \<^verbatim>\<open>random\<close>, \<^verbatim>\<open>numpy\<close>, \<^verbatim>\<open>torch\<close>). The module itself has no
  \<^verbatim>\<open>raise\<close> and no \<^verbatim>\<open>try\<close>: every exception propagates to the caller.
\<close>

datatype error = ValueError | IndexError | RuntimeError

subsection \<open>The values of a float tensor\<close>

text \<open>
  An entry of a \<^verbatim>\<open>float32\<close> tensor is a finite number, an infinity or NaN. A finite
  result whose magnitude reaches \<open>F32_LIMIT\<close>, the point from which rounding to nearest
  gives an infinity, overflows. The rounding of a finite result to the nearest
  \<^verbatim>\<open>float32\<close> number is not modelled, and the two zeros are one value.
\<close>

datatype f32 = Finite real | PosInf | NegInf | NaN

definition F32_LIMIT :: real where
  "F32_LIMIT = (2 - 1 / 2 ^ 24) * 2 ^ 127"

definition f32_of_real :: "real \<Rightarrow> f32" where
  "f32_of_real x =
     (if F32_LIMIT \<le> x then PosInf else if x \<le> - F32_LIMIT then NegInf else Finite x)"

fun is_finite :: "f32 \<Rightarrow> bool" where
  "is_finite (Finite x) = True"
| "is_finite other = False"

fun fneg :: "f32 \<Rightarrow> f32" where
  "fneg (Finite x) = Finite (- x)"
| "fneg PosInf = NegInf"
| "fneg NegInf = PosInf"
| "fneg NaN = NaN"

fun fadd :: "f32 \<Rightarrow> f32 \<Rightarrow> f32" where
  "fadd NaN y = NaN"
| "fadd x NaN = NaN"
| "fadd (Finite x) (Finite y) = f32_of_real (x + y)"
| "fadd (Finite x) PosInf = PosInf"
| "fadd (Finite x) NegInf = NegInf"
| "fadd PosInf (Finite y) = PosInf"
| "fadd NegInf (Finite y) = NegInf"
| "fadd PosInf PosInf = PosInf"
| "fadd NegInf NegInf = NegInf"
| "fadd PosInf NegInf = NaN"
| "fadd NegInf PosInf = NaN"

definition fsub :: "f32 \<Rightarrow> f32 \<Rightarrow> f32" where
  "fsub x y = fadd x (fneg y)"

fun fmul :: "f32 \<Rightarrow> f32 \<Rightarrow> f32" where
  "fmul NaN y = NaN"
| "fmul x NaN = NaN"
| "fmul (Finite x) (Finite y) = f32_of_real (x * y)"
| "fmul (Finite x) PosInf = (if x = 0 then NaN else if 0 < x then PosInf else NegInf)"
| "fmul (Finite x) NegInf = (if x = 0 then NaN else if 0 < x then NegInf else PosInf)"
| "fmul PosInf (Finite y) = (if y = 0 then NaN else if 0 < y then PosInf else NegInf)"
| "fmul NegInf (Finite y) = (if y = 0 then NaN else if 0 < y then NegInf else PosInf)"
| "fmul PosInf PosInf = PosInf"
| "fmul NegInf NegInf = PosInf"
| "fmul PosInf NegInf = NegInf"
| "fmul NegInf PosInf = NegInf"

text \<open>The comparison \<open>x \<le> y\<close> of two entries: false when either is NaN.\<close>

fun fle :: "f32 \<Rightarrow> f32 \<Rightarrow> bool" where
  "fle NaN y = False"
| "fle x NaN = False"
| "fle NegInf y = True"
| "fle x PosInf = True"
| "fle (Finite x) (Finite y) = (x \<le> y)"
| "fle PosInf y = False"
| "fle x NegInf = False"

text \<open>The larger of two entries as \<^verbatim>\<open>torch.max\<close> reduces them: NaN when either is NaN.\<close>

definition fmax :: "f32 \<Rightarrow> f32 \<Rightarrow> f32" where
  "fmax x y = (if x = NaN \<or> y = NaN then NaN else if fle x y then y else x)"

subsection \<open>Records\<close>

text \<open>
  The named tuple \<^verbatim>\<open>Experience(state, action, reward, next_state, done)\<close>. A state is
  a one-dimensional array, kept as the list of its entries, so that its length (its shape)
  is part of the value. The numbers that the caller supplies are kept as they are; they
  become \<^verbatim>\<open>float32\<close> entries (\<open>f32_of_real\<close>) where a tensor built from them enters
  float arithmetic.
\<close>

record experience =
  state :: "real list"
  action :: int
  reward :: real
  next_state :: "real list"
  done_flag :: bool

text \<open>
  \<^verbatim>\<open>ReplayBuffer\<close>: \<^verbatim>\<open>memory\<close> is the \<^verbatim>\<open>deque(maxlen=buffer_size)\<close>, oldest
  record first. The field \<^verbatim>\<open>seed\<close> holds the result of \<^verbatim>\<open>random.seed(seed)\<close>, which is
  \<^verbatim>\<open>None\<close>, and is left out.
\<close>

record replay_buffer =
  rb_action_size :: int
  memory :: "experience list"
  maxlen :: nat
  batch_size :: int

text \<open>
  The five batched arrays returned by \<^verbatim>\<open>sample\<close>. \<^verbatim>\<open>states\<close> and
  \<^verbatim>\<open>next_states\<close> are lists of rows; \<^verbatim>\<open>actions\<close>, \<^verbatim>\<open>rewards\<close> and
  \<^verbatim>\<open>dones\<close> have shape \<open>(B, 1)\<close> and are kept as the list of their \<open>B\<close> entries.
\<close>

type_synonym batch =
  "real list list \<times> int list \<times> real list \<times> real list list \<times> real list"

section \<open>ReplayBuffer\<close>

text \<open>\<^verbatim>\<open>deque(maxlen=n)\<close> raises \<^verbatim>\<open>ValueError\<close> for a negative \<^verbatim>\<open>n\<close>.\<close>

definition ReplayBuffer_init :: "int \<Rightarrow> int \<Rightarrow> int \<Rightarrow> error + replay_buffer" where
  "ReplayBuffer_init action_size buffer_size batch_size' =
     (if buffer_size < 0 then Inl ValueError
      else Inr \<lparr>rb_action_size = action_size, memory = [], maxlen = nat buffer_size,
                batch_size = batch_size'\<rparr>)"

text \<open>
  \<^verbatim>\<open>deque.append\<close> on a bounded deque: the item is appended on the right, and when the
  length then exceeds \<^verbatim>\<open>maxlen\<close> one item is removed on the left.
\<close>

definition deque_append :: "nat \<Rightarrow> 'a list \<Rightarrow> 'a \<Rightarrow> 'a list" where
  "deque_append n d x = (let d' = d @ [x] in if n < length d' then tl d' else d')"

definition add :: "replay_buffer \<Rightarrow> real list \<Rightarrow> int \<Rightarrow> real \<Rightarrow> real list \<Rightarrow> bool \<Rightarrow> replay_buffer" where
  "add b state' action' reward' next_state' done' =
     (let e = \<lparr>state = state', action = action', reward = reward',
                next_state = next_state', done_flag = done'\<rparr>
      in b\<lparr>memory := deque_append (maxlen b) (memory b) e\<rparr>)"

definition len :: "replay_buffer \<Rightarrow> nat" where
  "len b = length (memory b)"

text \<open>A sequence of insertions: \<^verbatim>\<open>add\<close> called once for each record of the list, in order.\<close>

fun add_all :: "replay_buffer \<Rightarrow> experience list \<Rightarrow> replay_buffer" where
  "add_all b [] = b"
| "add_all b (e # es) =
     add_all (add b (state e) (action e) (reward e) (next_state e) (done_flag e)) es"

subsection \<open>The random generator\<close>

text \<open>
  The generator is a sequence of raw draws. \<^verbatim>\<open>_randbelow(n)\<close> turns a raw draw into a
  number below \<open>n\<close>, and every number below \<open>n\<close> can come out.
\<close>

definition randbelow :: "nat \<Rightarrow> nat \<Rightarrow> nat" where
  "randbelow n raw = raw mod n"

text \<open>
  \<^verbatim>\<open>random.sample(population, k)\<close> raises \<^verbatim>\<open>ValueError\<close> when \<^verbatim>\<open>k\<close> is negative or
  larger than the population. Otherwise it selects \<^verbatim>\<open>k\<close> times one of the items not yet
  selected, as its loop over a copy of the population does: the selected item is
  \<^verbatim>\<open>pool[j]\<close> with \<^verbatim>\<open>j = _randbelow(n - i)\<close>, and the last item still in the pool takes
  its place. The population itself is left as it is. \<open>draws\<close> is the sequence of raw draws
  and \<open>i\<close> the number of the next one.
\<close>

fun sample_pool :: "'a list \<Rightarrow> nat \<Rightarrow> (nat \<Rightarrow> nat) \<Rightarrow> nat \<Rightarrow> 'a list" where
  "sample_pool pool 0 draws i = []"
| "sample_pool pool (Suc k) draws i =
     (if pool = [] then []
      else let j = randbelow (length pool) (draws i)
           in pool ! j # sample_pool (butlast (pool[j := last pool])) k draws (Suc i))"

definition random_sample :: "'a list \<Rightarrow> int \<Rightarrow> (nat \<Rightarrow> nat) \<Rightarrow> error + 'a list" where
  "random_sample population k draws =
     (if k < 0 \<or> int (length population) < k then Inl ValueError
      else Inr (sample_pool population (nat k) draws 0))"

text \<open>
  \<^verbatim>\<open>np.vstack\<close> of a list of rows: \<^verbatim>\<open>ValueError\<close> for an empty list and for rows of
  different lengths.
\<close>

definition vstack :: "'a list list \<Rightarrow> error + 'a list list" where
  "vstack rows =
     (case rows of
        [] \<Rightarrow> Inl ValueError
      | r # rs \<Rightarrow> if list_all (\<lambda>x. length x = length r) rs then Inr rows else Inl ValueError)"

text \<open>
  \<^verbatim>\<open>np.vstack\<close> of a list of scalars: an array of shape \<open>(B, 1)\<close> with one row for each
  scalar, \<^verbatim>\<open>ValueError\<close> for an empty list.
\<close>

definition vstack_scalars :: "'a list \<Rightarrow> error + 'a list" where
  "vstack_scalars xs = (if xs = [] then Inl ValueError else Inr xs)"

text \<open>
  \<^verbatim>\<open>sample\<close> reads the buffer and returns the batch; the buffer is returned beside the
  result, as every method of the object returns the object's state. The filter
  \<^verbatim>\<open>if e is not None\<close> keeps every record, since \<^verbatim>\<open>add\<close> stores named tuples only.
  \<^verbatim>\<open>done\<close> becomes \<open>1\<close> or \<open>0\<close> (\<^verbatim>\<open>astype(np.uint8)\<close>).
\<close>

definition sample :: "replay_buffer \<Rightarrow> (nat \<Rightarrow> nat) \<Rightarrow> replay_buffer \<times> (error + batch)" where
  "sample b draws =
     (b,
      case random_sample (memory b) (batch_size b) draws of
        Inl err \<Rightarrow> Inl err
      | Inr experiences \<Rightarrow>
     (case vstack (map state experiences) of
        Inl err \<Rightarrow> Inl err
      | Inr states \<Rightarrow>
     (case vstack_scalars (map action experiences) of
        Inl err \<Rightarrow> Inl err
      | Inr actions \<Rightarrow>
     (case vstack_scalars (map reward experiences) of
        Inl err \<Rightarrow> Inl err
      | Inr rewards \<Rightarrow>
     (case vstack (map next_state experiences) of
        Inl err \<Rightarrow> Inl err
      | Inr next_states \<Rightarrow>
     (case vstack_scalars (map (\<lambda>e. if done_flag e then 1 else 0) experiences) of
        Inl err \<Rightarrow> Inl err
      | Inr dones \<Rightarrow> Inr (states, actions, rewards, next_states, dones)))))))"

text \<open>
  The records that a call of \<^verbatim>\<open>sample\<close> draws, none when \<^verbatim>\<open>random.sample\<close> raises, and
  whether the rows of a list have one length.
\<close>

definition drawn :: "replay_buffer \<Rightarrow> (nat \<Rightarrow> nat) \<Rightarrow> experience list" where
  "drawn b draws =
     (case random_sample (memory b) (batch_size b) draws of Inl err \<Rightarrow> [] | Inr es \<Rightarrow> es)"

definition one_length :: "'a list list \<Rightarrow> bool" where
  "one_length rows \<longleftrightarrow> list_all (\<lambda>r. list_all (\<lambda>r'. length r = length r') rows) rows"

section \<open>Collaborators outside the module\<close>

text \<open>
  The estimator class \<^verbatim>\<open>QNetwork\<close> (imported from \<^verbatim>\<open>model\<close>), automatic differentiation and
  the Adam optimizer are not part of \<^verbatim>\<open>dqn_agent.py\<close>. They are parameters of the model:
  \<^item> \<open>make_network state_size action_size seed\<close> is \<^verbatim>\<open>QNetwork(state_size, action_size, seed)\<close>,
    the sequence \<^verbatim>\<open>parameters()\<close> of the new network, each tensor kept as the list of its entries;
  \<^item> \<open>forward m \<theta> s\<close> is the network with parameters \<open>\<theta>\<close>, in mode \<open>m\<close>, applied to the state
    \<open>s\<close>: the vector of action values, which are \<^verbatim>\<open>float32\<close> entries, or the exception it
    raises. The estimator maps each state of a batch to its own vector of action values;
  \<^item> \<open>make_optimizer \<theta> lr\<close> is \<^verbatim>\<open>optim.Adam(parameters, lr=lr)\<close>;
  \<^item> \<open>adam_step \<theta> opt m states actions Q_targets\<close> is \<^verbatim>\<open>optimizer.zero_grad()\<close>,
    \<^verbatim>\<open>loss.backward()\<close>, \<^verbatim>\<open>optimizer.step()\<close> for the loss
    \<^verbatim>\<open>mse_loss(qnetwork_local(states).gather(1, actions), Q_targets)\<close>: the new parameters of
    the local network and the new optimizer state.
\<close>

datatype mode = Training | Inference

type_synonym tensor = "real list"

type_synonym params = "tensor list"

record 'o collaborators =
  make_network :: "int \<Rightarrow> int \<Rightarrow> int \<Rightarrow> params"
  forward :: "mode \<Rightarrow> params \<Rightarrow> real list \<Rightarrow> error + f32 list"
  make_optimizer :: "params \<Rightarrow> real \<Rightarrow> 'o"
  adam_step :: "params \<Rightarrow> 'o \<Rightarrow> mode \<Rightarrow> real list list \<Rightarrow> int list \<Rightarrow> f32 list
                 \<Rightarrow> params \<times> 'o"

section \<open>Agent\<close>

definition BUFFER_SIZE :: int where "BUFFER_SIZE = 100000"
definition BATCH_SIZE :: int where "BATCH_SIZE = 64"
definition GAMMA :: real where "GAMMA = 99 / 100"
definition TAU :: real where "TAU = 1 / 1000"
definition LR :: real where "LR = 5 / 10000"
definition UPDATE_EVERY :: nat where "UPDATE_EVERY = 4"

text \<open>
  \<^verbatim>\<open>Agent\<close>. \<open>local_mode\<close> is the \<^verbatim>\<open>training\<close> flag of \<^verbatim>\<open>qnetwork_local\<close>, which
  \<^verbatim>\<open>eval()\<close> and \<^verbatim>\<open>train()\<close> set; a new module is in training mode, and the module never
  changes the mode of \<^verbatim>\<open>qnetwork_target\<close>. \<open>agent_memory\<close> is the field \<^verbatim>\<open>memory\<close>.
\<close>

record 'o agent =
  state_size :: int
  action_size :: int
  qnetwork_local :: params
  local_mode :: mode
  qnetwork_target :: params
  optimizer :: 'o
  agent_memory :: replay_buffer
  t_step :: nat

definition Agent_init :: "'o collaborators \<Rightarrow> int \<Rightarrow> int \<Rightarrow> int \<Rightarrow> error + 'o agent" where
  "Agent_init N state_size' action_size' seed =
     (let local = make_network N state_size' action_size' seed;
          target = make_network N state_size' action_size' seed;
          opt = make_optimizer N local LR
      in case ReplayBuffer_init action_size' BUFFER_SIZE BATCH_SIZE of
           Inl err \<Rightarrow> Inl err
         | Inr m \<Rightarrow>
             Inr \<lparr>state_size = state_size', action_size = action_size',
                  qnetwork_local = local, local_mode = Training, qnetwork_target = target,
                  optimizer = opt, agent_memory = m, t_step = 0\<rparr>)"

subsection \<open>Tensor operations used by the agent\<close>

text \<open>A network applied to a batch: row by row, the first exception wins.\<close>

fun forward_batch ::
  "'o collaborators \<Rightarrow> mode \<Rightarrow> params \<Rightarrow> real list list \<Rightarrow> error + f32 list list" where
  "forward_batch N m \<theta> [] = Inr []"
| "forward_batch N m \<theta> (s # ss) =
     (case forward N m \<theta> s of
        Inl err \<Rightarrow> Inl err
      | Inr q \<Rightarrow>
          (case forward_batch N m \<theta> ss of Inl err \<Rightarrow> Inl err | Inr qs \<Rightarrow> Inr (q # qs)))"

text \<open>
  \<^verbatim>\<open>np.argmax\<close> of a flat float array, \<^verbatim>\<open>ValueError\<close> for an empty array. Its loop
  keeps the largest entry so far, \<open>v\<close> at index \<open>best\<close>, replaces it by an entry \<open>x\<close> when
  \<open>x \<le> v\<close> is false, and stops at a NaN: the result is the index of the first NaN, or
  without a NaN the first index of the largest entry. \<open>i\<close> is the index of the next entry.
\<close>

fun argmax_scan :: "nat \<Rightarrow> f32 \<Rightarrow> nat \<Rightarrow> f32 list \<Rightarrow> nat" where
  "argmax_scan best v i [] = best"
| "argmax_scan best v i (x # xs) =
     (if v = NaN then best
      else if \<not> fle x v then argmax_scan i x (Suc i) xs
      else argmax_scan best v (Suc i) xs)"

definition argmax :: "f32 list \<Rightarrow> error + int" where
  "argmax xs = (case xs of [] \<Rightarrow> Inl ValueError | x # rest \<Rightarrow> Inr (int (argmax_scan 0 x 1 rest)))"

text \<open>\<^verbatim>\<open>np.arange(n)\<close>: the integers from \<open>0\<close> to \<open>n - 1\<close>, none for \<open>n \<le> 0\<close>.\<close>

definition arange :: "int \<Rightarrow> int list" where
  "arange n = [0..n - 1]"

text \<open>
  \<^verbatim>\<open>random.choice(seq)\<close>: \<^verbatim>\<open>IndexError\<close> for an empty sequence, otherwise
  \<^verbatim>\<open>seq[_randbelow(len(seq))]\<close>; \<open>c\<close> is the raw draw.
\<close>

definition random_choice :: "'a list \<Rightarrow> nat \<Rightarrow> error + 'a" where
  "random_choice seq c =
     (if seq = [] then Inl IndexError else Inr (seq ! randbelow (length seq) c))"

text \<open>
  \<^verbatim>\<open>.max(1)[0].unsqueeze(1)\<close>: the largest entry of each row, a tensor of shape
  \<open>(B, 1)\<close>; torch raises for a row without entries.
\<close>

fun max_rows :: "f32 list list \<Rightarrow> error + f32 list" where
  "max_rows [] = Inr []"
| "max_rows (q # qs) =
     (case q of
        [] \<Rightarrow> Inl IndexError
      | x # xs \<Rightarrow>
          (case max_rows qs of Inl err \<Rightarrow> Inl err | Inr ms \<Rightarrow> Inr (fold fmax xs x # ms)))"

text \<open>
  An entrywise operation on two tensors of shapes \<open>(m, 1)\<close> and \<open>(p, 1)\<close>: torch pairs the
  rows when \<open>m = p\<close>, repeats the only row of a tensor when \<open>m = 1\<close> or \<open>p = 1\<close>, and
  raises otherwise.
\<close>

definition broadcast :: "(f32 \<Rightarrow> f32 \<Rightarrow> f32) \<Rightarrow> f32 list \<Rightarrow> f32 list \<Rightarrow> error + f32 list" where
  "broadcast f xs ys =
     (if length xs = length ys then Inr (map2 f xs ys)
      else if length xs = 1 then Inr (map (f (hd xs)) ys)
      else if length ys = 1 then Inr (map (\<lambda>x. f x (hd ys)) xs)
      else Inl RuntimeError)"

text \<open>A Python number times a tensor, and \<open>1\<close> minus a tensor.\<close>

definition scale :: "real \<Rightarrow> f32 list \<Rightarrow> f32 list" where
  "scale c xs = map (fmul (f32_of_real c)) xs"

definition one_minus :: "f32 list \<Rightarrow> f32 list" where
  "one_minus xs = map (fsub (Finite 1)) xs"

text \<open>
  \<^verbatim>\<open>Q_targets = rewards + (gamma * Q_targets_next * (1 - dones))\<close>, in the order in which
  Python evaluates it.
\<close>

definition Q_targets_of :: "f32 list \<Rightarrow> real \<Rightarrow> f32 list \<Rightarrow> f32 list \<Rightarrow> error + f32 list" where
  "Q_targets_of rewards gamma Q_targets_next dones =
     (case broadcast fmul (scale gamma Q_targets_next) (one_minus dones) of
        Inl err \<Rightarrow> Inl err
      | Inr bootstrap \<Rightarrow> broadcast fadd rewards bootstrap)"

text \<open>
  \<^verbatim>\<open>input.gather(1, index)\<close> for an index of shape \<open>(B, 1)\<close>: row \<open>i\<close> of the result is
  \<open>input[i][index[i]]\<close>; torch raises when the index has more rows than the input or holds
  an index outside the row.
\<close>

definition gather :: "f32 list list \<Rightarrow> int list \<Rightarrow> error + f32 list" where
  "gather inp idx =
     (if length idx \<le> length inp
         \<and> list_all (\<lambda>(row, j). 0 \<le> j \<and> j < int (length row)) (zip inp idx)
      then Inr (map2 (\<lambda>row j. row ! nat j) inp idx)
      else Inl RuntimeError)"

subsection \<open>Agent.soft_update\<close>

text \<open>
  One pass of the loop body: \<^verbatim>\<open>tau*local_param.data + (1.0-tau)*target_param.data\<close>,
  copied into the target tensor. The two networks are built by the same constructor call, so
  paired tensors have one shape; for tensors of different sizes the model raises.
\<close>

definition mix :: "real \<Rightarrow> tensor \<Rightarrow> tensor \<Rightarrow> error + tensor" where
  "mix tau local_param target_param =
     (if length local_param = length target_param
      then Inr (map2 (\<lambda>l t. tau * l + (1 - tau) * t) local_param target_param)
      else Inl RuntimeError)"

text \<open>
  The loop over \<^verbatim>\<open>zip(target_model.parameters(), local_model.parameters())\<close>: it stops at
  the end of the shorter sequence, and target tensors beyond it keep their value. The result
  is the parameter sequence of the target network after the loop and the exception, if any,
  that ended it: tensors before the failing pair have been overwritten by then.
\<close>

fun soft_update :: "params \<Rightarrow> params \<Rightarrow> real \<Rightarrow> params \<times> error option" where
  "soft_update (l # ls) (t # ts) tau =
     (case mix tau l t of
        Inl err \<Rightarrow> (t # ts, Some err)
      | Inr t' \<Rightarrow> (case soft_update ls ts tau of (ts', r) \<Rightarrow> (t' # ts', r)))"
| "soft_update local_model target_model tau = (target_model, None)"

subsection \<open>Agent.learn\<close>

text \<open>
  The first two statements of \<^verbatim>\<open>learn\<close>: the target network applied to
  \<^verbatim>\<open>next_states\<close>, the largest value of each row, and the targets computed from them and
  from the entries of the float tensors \<^verbatim>\<open>rewards\<close> and \<^verbatim>\<open>dones\<close>.
\<close>

definition learn_Q_targets ::
  "'o collaborators \<Rightarrow> 'o agent \<Rightarrow> real list \<Rightarrow> real list list \<Rightarrow> real list \<Rightarrow> real
     \<Rightarrow> error + f32 list" where
  "learn_Q_targets N a rewards next_states dones gamma =
     (case forward_batch N Training (qnetwork_target a) next_states of
        Inl err \<Rightarrow> Inl err
      | Inr target_values \<Rightarrow>
     (case max_rows target_values of
        Inl err \<Rightarrow> Inl err
      | Inr Q_targets_next \<Rightarrow>
          Q_targets_of (map f32_of_real rewards) gamma Q_targets_next (map f32_of_real dones)))"

text \<open>
  The result is the agent after the call and the exception that ended it, if any. The
  forward passes, the targets and \<^verbatim>\<open>gather\<close> change nothing; the optimizer step changes the
  local network and the optimizer; \<^verbatim>\<open>soft_update\<close> changes the target network.
\<close>

definition learn :: "'o collaborators \<Rightarrow> 'o agent \<Rightarrow> batch \<Rightarrow> real \<Rightarrow> 'o agent \<times> error option" where
  "learn N a experiences gamma =
     (case experiences of (states, actions, rewards, next_states, dones) \<Rightarrow>
     (case learn_Q_targets N a rewards next_states dones gamma of
        Inl err \<Rightarrow> (a, Some err)
      | Inr Q_targets \<Rightarrow>
     (case forward_batch N (local_mode a) (qnetwork_local a) states of
        Inl err \<Rightarrow> (a, Some err)
      | Inr local_values \<Rightarrow>
     (case gather local_values actions of
        Inl err \<Rightarrow> (a, Some err)
      | Inr Q_expected \<Rightarrow>
     (case adam_step N (qnetwork_local a) (optimizer a) (local_mode a) states actions Q_targets of
        (\<theta>, opt) \<Rightarrow>
     (case soft_update \<theta> (qnetwork_target a) TAU of
        (target, r) \<Rightarrow>
          (a\<lparr>qnetwork_local := \<theta>, optimizer := opt, qnetwork_target := target\<rparr>, r)))))))"

subsection \<open>Agent.step\<close>

text \<open>
  What a call of \<^verbatim>\<open>step\<close> did after storing the record: nothing more; or it called
  \<^verbatim>\<open>sample\<close>, which raised; or it called \<^verbatim>\<open>learn\<close>, which returned or raised.
\<close>

datatype step_result = NotTriggered | SampleRaised error | LearnCalled "error option"

definition step ::
  "'o collaborators \<Rightarrow> 'o agent \<Rightarrow> real list \<Rightarrow> int \<Rightarrow> real \<Rightarrow> real list \<Rightarrow> bool \<Rightarrow> (nat \<Rightarrow> nat)
     \<Rightarrow> 'o agent \<times> step_result" where
  "step N a state' action' reward' next_state' done' picks =
     (let a1 = a\<lparr>agent_memory := add (agent_memory a) state' action' reward' next_state' done'\<rparr>;
          a2 = a1\<lparr>t_step := (t_step a1 + 1) mod UPDATE_EVERY\<rparr>
      in if t_step a2 = 0 then
           if BATCH_SIZE < int (len (agent_memory a2)) then
             (case sample (agent_memory a2) picks of
                (m, Inl err) \<Rightarrow> (a2\<lparr>agent_memory := m\<rparr>, SampleRaised err)
              | (m, Inr experiences) \<Rightarrow>
                  (case learn N (a2\<lparr>agent_memory := m\<rparr>) experiences GAMMA of
                     (a3, r) \<Rightarrow> (a3, LearnCalled r)))
           else (a2, NotTriggered)
         else (a2, NotTriggered))"

text \<open>
  A sequence of calls of \<^verbatim>\<open>step\<close>: each call has the record to store and the raw draws
  that the generator makes if that call samples. The result is the agent after the last
  call and what each call did.
\<close>

fun steps ::
  "'o collaborators \<Rightarrow> 'o agent \<Rightarrow> (experience \<times> (nat \<Rightarrow> nat)) list \<Rightarrow> 'o agent \<times> step_result list" where
  "steps N a [] = (a, [])"
| "steps N a (c # cs) =
     (case step N a (state (fst c)) (action (fst c)) (reward (fst c)) (next_state (fst c))
             (done_flag (fst c)) (snd c) of
        (a', r) \<Rightarrow> (case steps N a' cs of (a'', rs) \<Rightarrow> (a'', r # rs)))"

fun learn_called :: "step_result \<Rightarrow> bool" where
  "learn_called (LearnCalled r) = True"
| "learn_called other = False"

subsection \<open>Agent.act\<close>

text \<open>
  \<open>r\<close> is the number that \<^verbatim>\<open>random.random()\<close> returns, with \<open>0 \<le> r < 1\<close>, and \<open>c\<close> the
  raw draw of \<^verbatim>\<open>random.choice\<close>. The state becomes a batch of one row
  (\<^verbatim>\<open>unsqueeze(0)\<close>), and \<^verbatim>\<open>np.argmax\<close> without an axis reads the flattened result. The
  result is the agent after the call and the action, or the exception that ended the call.
\<close>

definition act ::
  "'o collaborators \<Rightarrow> 'o agent \<Rightarrow> real list \<Rightarrow> real \<Rightarrow> real \<Rightarrow> nat \<Rightarrow> 'o agent \<times> (error + int)" where
  "act N a state' eps r c =
     (let a1 = a\<lparr>local_mode := Inference\<rparr>
      in case forward_batch N (local_mode a1) (qnetwork_local a1) [state'] of
           Inl err \<Rightarrow> (a1, Inl err)
         | Inr action_values \<Rightarrow>
             (let a2 = a1\<lparr>local_mode := Training\<rparr>
              in if eps < r then (a2, argmax (concat action_values))
                 else (a2, random_choice (arange (action_size a2)) c)))"

section \<open>A concrete instance\<close>

text \<open>
  A small instance of the collaborators, for evaluating the model on concrete inputs: a
  network with one weight vector \<open>w\<close> whose action values are the entries of the state
  multiplied by \<open>w\<close>, and which raises for a state of another length than \<open>w\<close>, as a
  linear layer does; an optimizer step that adds one to every weight and counts the steps.
  \<open>toy_agent\<close> is the agent that \<^verbatim>\<open>Agent(2, 2, seed)\<close> builds from it, \<open>toy_agent0\<close> the
  one that \<^verbatim>\<open>Agent(0, 0, seed)\<close> builds, and \<open>zero_draws\<close> a generator whose raw draws are
  all \<open>0\<close>.
\<close>

definition toy :: "nat collaborators" where
  "toy = \<lparr>make_network = (\<lambda>state_size action_size seed. [replicate (nat state_size) 1]),
          forward = (\<lambda>m \<theta> s. case \<theta> of
                        [] \<Rightarrow> Inl RuntimeError
                      | w # ws \<Rightarrow> if length s = length w
                                  then Inr (map2 (\<lambda>x y. f32_of_real (x * y)) w s)
                                  else Inl RuntimeError),
          make_optimizer = (\<lambda>\<theta> lr. 0),
          adam_step = (\<lambda>\<theta> opt m states actions Q_targets.
                         (map (map (\<lambda>w. w + 1)) \<theta>, Suc opt))\<rparr>"

definition toy_agent :: "nat agent" where
  "toy_agent = \<lparr>state_size = 2, action_size = 2, qnetwork_local = [[1, 1]],
                local_mode = Training, qnetwork_target = [[1, 1]], optimizer = 0,
                agent_memory = \<lparr>rb_action_size = 2, memory = [], maxlen = 100000, batch_size = 64\<rparr>,
                t_step = 0\<rparr>"

definition toy_agent0 :: "nat agent" where
  "toy_agent0 = \<lparr>state_size = 0, action_size = 0, qnetwork_local = [[]],
                 local_mode = Training, qnetwork_target = [[]], optimizer = 0,
                 agent_memory = \<lparr>rb_action_size = 0, memory = [], maxlen = 100000, batch_size = 64\<rparr>,
                 t_step = 0\<rparr>"

definition zero_draws :: "nat \<Rightarrow> nat" where
  "zero_draws i = 0"

section \<open>Properties of the replay buffer\<close>

lemma deque_append_drop:
  "deque_append n d x = drop (Suc (length d) - n) (d @ [x])" if "length d \<le> n"
proof (cases "length d = n")
  case True
  then show ?thesis by (cases d) (simp_all add: deque_append_def Let_def)
next
  case False
  with that have "length d < n" by simp
  then show ?thesis by (simp add: deque_append_def Let_def)
qed

lemma rebuild_experience:
  "\<lparr>state = state e, action = action e, reward = reward e, next_state = next_state e,
    done_flag = done_flag e\<rparr> = (e :: experience)"
  by simp

lemma add_memory:
  "memory (add b (state e) (action e) (reward e) (next_state e) (done_flag e)) =
     deque_append (maxlen b) (memory b) e"
  by (simp add: add_def rebuild_experience)

lemma add_maxlen: "maxlen (add b s a r s' d) = maxlen b"
  by (simp add: add_def)

text \<open>
  The buffer holds the last \<open>maxlen\<close> records of the history \<open>h\<close> of insertions, and keeps
  doing so while more records are inserted.
\<close>

lemma add_all_history:
  "memory b = drop (length h - maxlen b) h \<Longrightarrow>
   memory (add_all b es) = drop (length (h @ es) - maxlen b) (h @ es) \<and> maxlen (add_all b es) = maxlen b"
proof (induction es arbitrary: b h)
  case Nil
  then show ?case by simp
next
  case (Cons e es)
  let ?b = "add b (state e) (action e) (reward e) (next_state e) (done_flag e)"
  have le: "length (memory b) \<le> maxlen b" using Cons.prems by simp
  have "memory ?b = drop (Suc (length (memory b)) - maxlen b) (memory b @ [e])"
    using deque_append_drop [OF le] by (simp add: add_memory)
  also have "\<dots> = drop (length (h @ [e]) - maxlen b) (h @ [e])"
    using Cons.prems by (cases "length h \<le> maxlen b") (simp_all add: Suc_diff_le)
  finally have "memory ?b = drop (length (h @ [e]) - maxlen ?b) (h @ [e])"
    by (simp add: add_maxlen)
  from Cons.IH [OF this] show ?case by (simp add: add_maxlen)
qed

text \<open>
  Claim C2. A buffer built with capacity \<open>C\<close> and then filled by any sequence \<open>es\<close> of
  insertions never holds more than \<open>C\<close> records; it holds exactly the last \<open>C\<close> records
  of \<open>es\<close>, in insertion order, hence \<open>C\<close> records once more than \<open>C\<close> have been inserted;
  and an insertion into the buffer at capacity drops the oldest record, the head of the
  deque, and nothing else.
\<close>

theorem replay_store_capacity_fifo:
  assumes "ReplayBuffer_init asz C bs = Inr b0"
  shows "len (add_all b0 es) \<le> nat C
       \<and> memory (add_all b0 es) = drop (length es - nat C) es
       \<and> (nat C < length es \<longrightarrow> len (add_all b0 es) = nat C)
       \<and> (len (add_all b0 es) = nat C \<longrightarrow>
            memory (add (add_all b0 es) (state e) (action e) (reward e) (next_state e) (done_flag e))
              = tl (memory (add_all b0 es) @ [e]))"
proof -
  from assms have b0: "memory b0 = []" "maxlen b0 = nat C"
    by (auto simp: ReplayBuffer_init_def split: if_splits)
  have "memory b0 = drop (length ([] :: experience list) - maxlen b0) []"
    by (simp add: b0)
  from add_all_history [OF this, of es]
  have mem: "memory (add_all b0 es) = drop (length es - nat C) es"
    and cap: "maxlen (add_all b0 es) = nat C"
    by (simp_all add: b0)
  have size: "len (add_all b0 es) \<le> nat C"
    by (simp add: len_def mem)
  have full: "len (add_all b0 es) = nat C" if "nat C < length es"
    using that by (simp add: len_def mem)
  have evict: "memory (add (add_all b0 es) (state e) (action e) (reward e) (next_state e) (done_flag e))
      = tl (memory (add_all b0 es) @ [e])" if "len (add_all b0 es) = nat C"
    using that by (simp add: add_memory cap deque_append_def len_def)
  from mem size full evict show ?thesis by blast
qed

theorem replay_store_capacity_fifo_witness:
  "ReplayBuffer_init 4 2 1 =
     Inr \<lparr>rb_action_size = 4, memory = [], maxlen = 2, batch_size = 1\<rparr>
   \<and> memory (add_all \<lparr>rb_action_size = 4, memory = [], maxlen = 2, batch_size = 1\<rparr>
        [\<lparr>state = [1], action = 0, reward = 1, next_state = [2], done_flag = False\<rparr>,
         \<lparr>state = [2], action = 1, reward = 2, next_state = [3], done_flag = False\<rparr>,
         \<lparr>state = [3], action = 2, reward = 3, next_state = [4], done_flag = True\<rparr>])
     = [\<lparr>state = [2], action = 1, reward = 2, next_state = [3], done_flag = False\<rparr>,
        \<lparr>state = [3], action = 2, reward = 3, next_state = [4], done_flag = True\<rparr>]
   \<and> len (add_all \<lparr>rb_action_size = 4, memory = [], maxlen = 2, batch_size = 1\<rparr>
        [\<lparr>state = [1], action = 0, reward = 1, next_state = [2], done_flag = False\<rparr>,
         \<lparr>state = [2], action = 1, reward = 2, next_state = [3], done_flag = False\<rparr>,
         \<lparr>state = [3], action = 2, reward = 3, next_state = [4], done_flag = True\<rparr>]) = 2"
proof -
  have init: "ReplayBuffer_init 4 2 1 =
      Inr \<lparr>rb_action_size = 4, memory = [], maxlen = 2, batch_size = 1\<rparr>"
    by (simp add: ReplayBuffer_init_def)
  show ?thesis
    using init replay_store_capacity_fifo [OF init,
        of "[\<lparr>state = [1], action = 0, reward = 1, next_state = [2], done_flag = False\<rparr>,
             \<lparr>state = [2], action = 1, reward = 2, next_state = [3], done_flag = False\<rparr>,
             \<lparr>state = [3], action = 2, reward = 3, next_state = [4], done_flag = True\<rparr>]"]
    by simp
qed

text \<open>
  Claim C6. When the buffer holds fewer records than the batch size, \<^verbatim>\<open>sample\<close> raises
  \<^verbatim>\<open>ValueError\<close>, whatever the generator would draw: no batch is returned, short or
  padded.
\<close>

theorem sample_too_few_raises:
  "int (len b) < batch_size b \<Longrightarrow> sample b picks = (b, Inl ValueError)"
  by (simp add: sample_def random_sample_def len_def)

theorem sample_too_few_raises_witness:
  "int (len \<lparr>rb_action_size = 4,
             memory = [\<lparr>state = [1], action = 0, reward = 1, next_state = [2], done_flag = False\<rparr>],
             maxlen = 5, batch_size = 2\<rparr>) < 2
   \<and> sample \<lparr>rb_action_size = 4,
             memory = [\<lparr>state = [1], action = 0, reward = 1, next_state = [2], done_flag = False\<rparr>],
             maxlen = 5, batch_size = 2\<rparr> zero_draws
      = (\<lparr>rb_action_size = 4,
             memory = [\<lparr>state = [1], action = 0, reward = 1, next_state = [2], done_flag = False\<rparr>],
             maxlen = 5, batch_size = 2\<rparr>, Inl ValueError)"
  using sample_too_few_raises [of "\<lparr>rb_action_size = 4,
             memory = [\<lparr>state = [1], action = 0, reward = 1, next_state = [2], done_flag = False\<rparr>],
             maxlen = 5, batch_size = 2\<rparr>" zero_draws]
  by (simp add: len_def)

section \<open>Properties of the learning update\<close>

lemma F32_LIMIT_large: "2 ^ 127 < F32_LIMIT"
proof -
  have "(1 :: real) < 2 - 1 / 2 ^ 24" by simp
  then have "1 * (2 :: real) ^ 127 < (2 - 1 / 2 ^ 24) * 2 ^ 127"
    by (intro mult_strict_right_mono) simp_all
  then show ?thesis by (simp add: F32_LIMIT_def)
qed

lemma F32_LIMIT_below: "F32_LIMIT < 2 ^ 128"
proof -
  have "(2 - 1 / 2 ^ 24) * (2 :: real) ^ 127 < 2 * 2 ^ 127"
    by (intro mult_strict_right_mono) simp_all
  then show ?thesis by (simp add: F32_LIMIT_def)
qed

lemma f32_of_real_Finite: "\<bar>x\<bar> < F32_LIMIT \<Longrightarrow> f32_of_real x = Finite x"
  by (auto simp: f32_of_real_def)

lemma f32_of_real_small: "\<bar>x\<bar> \<le> 1000000 \<Longrightarrow> f32_of_real x = Finite x"
proof (rule f32_of_real_Finite)
  assume "\<bar>x\<bar> \<le> 1000000"
  also have "(1000000 :: real) < 2 ^ 127" by simp
  also note F32_LIMIT_large
  finally show "\<bar>x\<bar> < F32_LIMIT" .
qed

lemma f32_of_real_cases:
  "f32_of_real x = Finite x \<and> \<bar>x\<bar> < F32_LIMIT \<or> f32_of_real x = PosInf \<or> f32_of_real x = NegInf"
  by (auto simp: f32_of_real_def)

lemma fadd_zero: "fadd (f32_of_real r) (Finite 0) = f32_of_real r"
  using f32_of_real_cases [of r] by (auto simp: f32_of_real_Finite)

lemma fmul_zero: "fmul p (Finite 0) = (if is_finite p then Finite 0 else NaN)"
  by (cases p) (simp_all add: f32_of_real_small)

lemma one_minus_one: "fsub (Finite 1) (f32_of_real 1) = Finite 0"
  by (simp add: fsub_def f32_of_real_small)

lemma fadd_NaN: "fadd x NaN = NaN"
  by (cases x) simp_all

lemma forward_batch_rows:
  "forward_batch N m \<theta> ss = Inr qs \<Longrightarrow>
   length qs = length ss \<and> (\<forall>i<length ss. forward N m \<theta> (ss ! i) = Inr (qs ! i))"
proof (induction ss arbitrary: qs)
  case Nil
  then show ?case by simp
next
  case (Cons s ss)
  from Cons.prems obtain q qs' where q: "forward N m \<theta> s = Inr q"
    and qs': "forward_batch N m \<theta> ss = Inr qs'" and qs: "qs = q # qs'"
    by (auto split: sum.splits)
  from Cons.IH [OF qs'] q qs show ?case
    by (auto simp: nth_Cons split: nat.splits)
qed

lemma forward_batch_total:
  "(\<forall>s\<in>set ss. \<exists>q. forward N m \<theta> s = Inr q) \<Longrightarrow> \<exists>qs. forward_batch N m \<theta> ss = Inr qs"
  by (induction ss) auto

lemma max_rows_fold:
  "list_all (\<lambda>q. q \<noteq> []) qs \<Longrightarrow> max_rows qs = Inr (map (\<lambda>q. fold fmax (tl q) (hd q)) qs)"
proof (induction qs)
  case Nil
  then show ?case by simp
next
  case (Cons q qs)
  then obtain x xs where "q = x # xs" by (cases q) auto
  with Cons show ?case by simp
qed

text \<open>
  The value that \<^verbatim>\<open>max\<close> finds in a row: NaN when the row holds a NaN, and otherwise
  an entry of the row that no entry exceeds.
\<close>

lemma fle_total: "x \<noteq> NaN \<Longrightarrow> y \<noteq> NaN \<Longrightarrow> fle x y \<or> fle y x"
  by (cases x; cases y) auto

lemma fle_trans: "fle x y \<Longrightarrow> fle y z \<Longrightarrow> fle x z"
  by (cases x; cases y; cases z) auto

lemma fle_refl: "x \<noteq> NaN \<Longrightarrow> fle x x"
  by (cases x) auto

lemma fold_fmax_greatest:
  "NaN \<notin> set (x # xs) \<Longrightarrow>
   fold fmax xs x \<in> set (x # xs) \<and> (\<forall>y\<in>set (x # xs). fle y (fold fmax xs x))"
proof (induction xs arbitrary: x)
  case Nil
  then show ?case by (simp add: fle_refl)
next
  case (Cons z zs)
  from Cons.prems have nn: "x \<noteq> NaN" "z \<noteq> NaN" "NaN \<notin> set zs" by auto
  let ?m = "fmax z x"
  have m: "?m = (if fle z x then x else z)" using nn by (simp add: fmax_def)
  then have "NaN \<notin> set (?m # zs)" using nn by auto
  from Cons.IH [OF this]
  have in_set: "fold fmax zs ?m \<in> set (?m # zs)"
    and top: "\<forall>y\<in>set (?m # zs). fle y (fold fmax zs ?m)" by simp_all
  have "fle x ?m" "fle z ?m"
    using m nn fle_total [of z x] by (auto simp: fle_refl)
  with top have "fle x (fold fmax zs ?m)" "fle z (fold fmax zs ?m)"
    by (auto intro: fle_trans)
  with in_set top m show ?case by auto
qed

lemma fmax_NaN: "fmax NaN y = NaN" "fmax x NaN = NaN"
  by (simp_all add: fmax_def)

lemma fold_fmax_NaN_start: "fold fmax xs NaN = NaN"
  by (induction xs) (simp_all add: fmax_NaN)

lemma fold_fmax_NaN: "NaN \<in> set (x # xs) \<Longrightarrow> fold fmax xs x = NaN"
proof (induction xs arbitrary: x)
  case Nil
  then show ?case by simp
next
  case (Cons z zs)
  show ?case
  proof (cases "x = NaN \<or> z = NaN")
    case True
    then have "fmax z x = NaN" by (auto simp: fmax_NaN)
    then show ?thesis by (simp add: fold_fmax_NaN_start)
  next
    case False
    with Cons.prems have "NaN \<in> set (fmax z x # zs)" by auto
    from Cons.IH [OF this] show ?thesis by simp
  qed
qed

lemma Q_targets_of_paired:
  assumes "length rewards = n" and "length qnext = n" and "length dones = n"
  shows "Q_targets_of rewards gamma qnext dones =
           Inr (map (\<lambda>i. fadd (rewards ! i)
                          (fmul (fmul (f32_of_real gamma) (qnext ! i)) (fsub (Finite 1) (dones ! i))))
                  [0..<n])"
proof -
  have "broadcast fmul (scale gamma qnext) (one_minus dones)
      = Inr (map2 fmul (scale gamma qnext) (one_minus dones))"
    using assms by (simp add: broadcast_def scale_def one_minus_def)
  moreover have "broadcast fadd rewards (map2 fmul (scale gamma qnext) (one_minus dones))
      = Inr (map2 fadd rewards (map2 fmul (scale gamma qnext) (one_minus dones)))"
    using assms by (simp add: broadcast_def scale_def one_minus_def)
  moreover have "map2 fadd rewards (map2 fmul (scale gamma qnext) (one_minus dones))
      = map (\<lambda>i. fadd (rewards ! i)
                (fmul (fmul (f32_of_real gamma) (qnext ! i)) (fsub (Finite 1) (dones ! i)))) [0..<n]"
    using assms by (intro nth_equalityI) (simp_all add: scale_def one_minus_def)
  ultimately show ?thesis by (simp add: Q_targets_of_def)
qed

text \<open>
  Claim C1 fails as stated when the bootstrapped value is not finite. The target network
  returns an infinite action value for a next state with an entry beyond the
  \<^verbatim>\<open>float32\<close> range; \<open>gamma\<close> times infinity is infinity, infinity times \<open>1 - 1 = 0\<close> is
  NaN, and the reward \<open>1\<close> plus NaN is NaN: with \<open>done = 1\<close> the target is not the reward.
\<close>

theorem bellman_target_infinite_value:
  "forward toy Training (qnetwork_target toy_agent) [2 ^ 128, 0] = Inr [PosInf, Finite 0]
   \<and> f32_of_real 1 = Finite 1
   \<and> learn_Q_targets toy toy_agent [1] [[2 ^ 128, 0]] [1] GAMMA = Inr [NaN]"
proof -
  have fwd: "forward toy Training (qnetwork_target toy_agent) [2 ^ 128, 0] = Inr [PosInf, Finite 0]"
    by (simp add: toy_def toy_agent_def f32_of_real_def F32_LIMIT_def)
  have gamma: "f32_of_real GAMMA = Finite (99 / 100)"
    by (simp add: GAMMA_def f32_of_real_small)
  have "learn_Q_targets toy toy_agent [1] [[2 ^ 128, 0]] [1] GAMMA
      = Q_targets_of [f32_of_real 1] GAMMA [PosInf] [f32_of_real 1]"
    unfolding learn_Q_targets_def fwd forward_batch.simps by (simp add: fmax_def)
  also have "\<dots> = Inr [NaN]"
    by (simp add: Q_targets_of_def broadcast_def scale_def one_minus_def gamma fsub_def
        f32_of_real_small)
  finally show ?thesis
    using fwd by (simp add: f32_of_real_small)
qed

text \<open>
  Claim C1, amended. For a batch whose \<^verbatim>\<open>rewards\<close> and \<^verbatim>\<open>dones\<close> have one entry for each
  next state, and a target network that returns at least one action value for each next
  state, \<^verbatim>\<open>learn\<close> computes one target for each batch element \<open>i\<close>, in float arithmetic:
  \<open>rewards[i] + gamma * m * (1 - dones[i])\<close>, where \<open>m\<close> is what \<^verbatim>\<open>max\<close> finds in the row
  of action values, the largest of them when none is NaN. Where \<open>dones[i] = 1\<close> the target
  is \<open>rewards[i]\<close> if \<open>gamma * m\<close> is finite, and NaN if it is infinite or NaN.
\<close>

theorem bellman_target:
  assumes "length rewards = length next_states" and "length dones = length next_states"
    and "\<forall>s\<in>set next_states. \<exists>q. forward N Training (qnetwork_target a) s = Inr q \<and> q \<noteq> []"
  shows "\<exists>Q. learn_Q_targets N a rewards next_states dones gamma = Inr Q
           \<and> length Q = length next_states
           \<and> (\<forall>i<length next_states.
                 \<exists>q m. forward N Training (qnetwork_target a) (next_states ! i) = Inr q
                   \<and> m = fold fmax (tl q) (hd q)
                   \<and> (NaN \<notin> set q \<longrightarrow> m \<in> set q \<and> (\<forall>y\<in>set q. fle y m))
                   \<and> Q ! i = fadd (f32_of_real (rewards ! i))
                               (fmul (fmul (f32_of_real gamma) m)
                                  (fsub (Finite 1) (f32_of_real (dones ! i))))
                   \<and> (dones ! i = 1 \<and> is_finite (fmul (f32_of_real gamma) m) \<longrightarrow>
                         Q ! i = f32_of_real (rewards ! i))
                   \<and> (dones ! i = 1 \<and> \<not> is_finite (fmul (f32_of_real gamma) m) \<longrightarrow>
                         Q ! i = NaN))"
proof -
  let ?n = "length next_states"
  let ?m = "\<lambda>q. fold fmax (tl q) (hd q)"
  from assms(3) obtain tv where tv: "forward_batch N Training (qnetwork_target a) next_states = Inr tv"
    using forward_batch_total [of next_states N Training "qnetwork_target a"] by blast
  from forward_batch_rows [OF tv]
  have len: "length tv = ?n"
    and rows: "\<And>i. i < ?n \<Longrightarrow> forward N Training (qnetwork_target a) (next_states ! i) = Inr (tv ! i)"
    by simp_all
  have nonempty: "tv ! i \<noteq> []" if "i < ?n" for i
  proof -
    from that have "next_states ! i \<in> set next_states" by simp
    with assms(3) obtain q where "forward N Training (qnetwork_target a) (next_states ! i) = Inr q" "q \<noteq> []"
      by blast
    with rows [OF that] show ?thesis by simp
  qed
  then have "list_all (\<lambda>q. q \<noteq> []) tv"
    using len by (simp add: list_all_length)
  then have mx: "max_rows tv = Inr (map ?m tv)"
    by (rule max_rows_fold)
  let ?Q = "map (\<lambda>i. fadd (map f32_of_real rewards ! i)
                     (fmul (fmul (f32_of_real gamma) (map ?m tv ! i))
                        (fsub (Finite 1) (map f32_of_real dones ! i)))) [0..<?n]"
  have "Q_targets_of (map f32_of_real rewards) gamma (map ?m tv) (map f32_of_real dones) = Inr ?Q"
    using assms(1,2) len by (intro Q_targets_of_paired) simp_all
  with tv mx have Q: "learn_Q_targets N a rewards next_states dones gamma = Inr ?Q"
    by (simp add: learn_Q_targets_def)
  have "\<exists>q m. forward N Training (qnetwork_target a) (next_states ! i) = Inr q
          \<and> m = ?m q
          \<and> (NaN \<notin> set q \<longrightarrow> m \<in> set q \<and> (\<forall>y\<in>set q. fle y m))
          \<and> ?Q ! i = fadd (f32_of_real (rewards ! i))
                       (fmul (fmul (f32_of_real gamma) m) (fsub (Finite 1) (f32_of_real (dones ! i))))
          \<and> (dones ! i = 1 \<and> is_finite (fmul (f32_of_real gamma) m) \<longrightarrow>
                ?Q ! i = f32_of_real (rewards ! i))
          \<and> (dones ! i = 1 \<and> \<not> is_finite (fmul (f32_of_real gamma) m) \<longrightarrow> ?Q ! i = NaN)"
    if i: "i < ?n" for i
  proof -
    let ?q = "tv ! i"
    from nonempty [OF i] obtain x xs where q: "?q = x # xs" by (cases ?q) auto
    have great: "?m ?q \<in> set ?q \<and> (\<forall>y\<in>set ?q. fle y (?m ?q))" if "NaN \<notin> set ?q"
      using fold_fmax_greatest [of x xs] that q by simp
    have entry: "?Q ! i = fadd (f32_of_real (rewards ! i))
        (fmul (fmul (f32_of_real gamma) (?m ?q)) (fsub (Finite 1) (f32_of_real (dones ! i))))"
      using i assms(1,2) len by simp
    have fin: "?Q ! i = f32_of_real (rewards ! i)"
      if "dones ! i = 1" "is_finite (fmul (f32_of_real gamma) (?m ?q))"
      using that by (simp add: entry one_minus_one fmul_zero fadd_zero)
    have nan: "?Q ! i = NaN"
      if "dones ! i = 1" "\<not> is_finite (fmul (f32_of_real gamma) (?m ?q))"
      using that by (simp add: entry one_minus_one fmul_zero fadd_NaN)
    from rows [OF i] great entry fin nan show ?thesis by blast
  qed
  with Q show ?thesis by (intro exI [of _ ?Q]) simp
qed

theorem bellman_target_witness:
  "\<exists>Q. learn_Q_targets toy toy_agent [10, 20] [[3, 5], [4, 1]] [0, 1] (1 / 2) = Inr Q
     \<and> Q ! 1 = Finite 20"
proof -
  have fwd: "forward toy Training (qnetwork_target toy_agent) [x, y]
      = Inr [f32_of_real x, f32_of_real y]" for x y
    by (simp add: toy_def toy_agent_def)
  have ok: "\<forall>s\<in>set [[3, 5], [4, 1 :: real]].
      \<exists>q. forward toy Training (qnetwork_target toy_agent) s = Inr q \<and> q \<noteq> []"
    by (simp add: fwd)
  have "\<exists>Q. learn_Q_targets toy toy_agent [10, 20] [[3, 5], [4, 1]] [0, 1] (1 / 2) = Inr Q
           \<and> length Q = length [[3, 5], [4, 1 :: real]]
           \<and> (\<forall>i<length [[3, 5], [4, 1 :: real]].
                 \<exists>q m. forward toy Training (qnetwork_target toy_agent) ([[3, 5], [4, 1]] ! i) = Inr q
                   \<and> m = fold fmax (tl q) (hd q)
                   \<and> (NaN \<notin> set q \<longrightarrow> m \<in> set q \<and> (\<forall>y\<in>set q. fle y m))
                   \<and> Q ! i = fadd (f32_of_real ([10, 20] ! i))
                               (fmul (fmul (f32_of_real (1 / 2)) m)
                                  (fsub (Finite 1) (f32_of_real ([0, 1] ! i))))
                   \<and> ([0, 1 :: real] ! i = 1 \<and> is_finite (fmul (f32_of_real (1 / 2)) m) \<longrightarrow>
                         Q ! i = f32_of_real ([10, 20] ! i))
                   \<and> ([0, 1 :: real] ! i = 1 \<and> \<not> is_finite (fmul (f32_of_real (1 / 2)) m) \<longrightarrow>
                         Q ! i = NaN))"
    by (rule bellman_target [OF _ _ ok]) simp_all
  then obtain Q where Q: "learn_Q_targets toy toy_agent [10, 20] [[3, 5], [4, 1]] [0, 1] (1 / 2) = Inr Q"
    and at: "\<forall>i<length [[3, 5], [4, 1 :: real]].
                 \<exists>q m. forward toy Training (qnetwork_target toy_agent) ([[3, 5], [4, 1]] ! i) = Inr q
                   \<and> m = fold fmax (tl q) (hd q)
                   \<and> (NaN \<notin> set q \<longrightarrow> m \<in> set q \<and> (\<forall>y\<in>set q. fle y m))
                   \<and> Q ! i = fadd (f32_of_real ([10, 20] ! i))
                               (fmul (fmul (f32_of_real (1 / 2)) m)
                                  (fsub (Finite 1) (f32_of_real ([0, 1] ! i))))
                   \<and> ([0, 1 :: real] ! i = 1 \<and> is_finite (fmul (f32_of_real (1 / 2)) m) \<longrightarrow>
                         Q ! i = f32_of_real ([10, 20] ! i))
                   \<and> ([0, 1 :: real] ! i = 1 \<and> \<not> is_finite (fmul (f32_of_real (1 / 2)) m) \<longrightarrow>
                         Q ! i = NaN)"
    by blast
  from at [rule_format, of 1] have "Q ! 1 = Finite 20"
    by (auto simp: fwd f32_of_real_small fmax_def)
  with Q show ?thesis by blast
qed

section \<open>Properties of sampling\<close>

lemma sample_pool_map:
  "sample_pool (map f pool) k draws i = map f (sample_pool pool k draws i)"
proof (induction k arbitrary: pool i)
  case 0
  then show ?case by simp
next
  case (Suc k)
  show ?case
  proof (cases "pool = []")
    case True
    then show ?thesis by simp
  next
    case False
    let ?j = "randbelow (length pool) (draws i)"
    have j: "?j < length pool"
      using False by (simp add: randbelow_def)
    have "butlast ((map f pool)[?j := last (map f pool)]) = map f (butlast (pool[?j := last pool]))"
      using False by (simp add: last_map map_update map_butlast)
    with Suc.IH [of "butlast (pool[?j := last pool])" "Suc i"] False j show ?thesis
      by (simp add: Let_def)
  qed
qed

lemma set_swap_out:
  assumes "distinct pool" and "j < length pool"
  shows "distinct (butlast (pool[j := last pool]))
       \<and> set (butlast (pool[j := last pool])) = set pool - {pool ! j}"
proof (cases "j = length pool - 1")
  case True
  have ne: "pool \<noteq> []" using assms(2) by auto
  define front where "front = butlast pool"
  have pool: "pool = front @ [last pool]"
    using ne by (simp add: front_def)
  have jf: "j = length front" using True by (simp add: front_def)
  have at: "pool ! j = last pool"
    by (subst pool) (simp add: jf)
  have "pool[j := last pool] = pool"
    using at assms(2) by (metis list_update_id)
  then have upd: "butlast (pool[j := last pool]) = front"
    by (simp add: front_def)
  have "distinct (front @ [last pool])" using assms(1) pool by simp
  then have d: "distinct front" "last pool \<notin> set front" by simp_all
  have "set pool = insert (last pool) (set front)"
    by (subst pool) simp
  with d show ?thesis
    unfolding upd at by auto
next
  case False
  with assms(2) have j: "j < length pool - 1" by simp
  have ne: "pool \<noteq> []" using assms(2) by auto
  define front where "front = butlast pool"
  have pool: "pool = front @ [last pool]"
    using ne by (simp add: front_def)
  have jf: "j < length front" using j by (simp add: front_def)
  have upd: "butlast (pool[j := last pool]) = front[j := last pool]"
    by (subst pool) (simp add: jf list_update_append butlast_append)
  have "distinct (front @ [last pool])" using assms(1) pool by simp
  then have d: "distinct front" "last pool \<notin> set front" by simp_all
  have at: "pool ! j = front ! j"
    by (subst pool) (simp add: jf nth_append)
  have "distinct (front[j := last pool])"
    using d jf by (simp add: distinct_list_update)
  moreover have "set (front[j := last pool]) = insert (last pool) (set front - {front ! j})"
    using d(1) jf by (rule set_update_distinct)
  moreover have "set pool = insert (last pool) (set front)"
    by (subst pool) simp
  moreover have "last pool \<noteq> front ! j"
    using d(2) jf by (metis nth_mem)
  ultimately show ?thesis
    unfolding upd at by auto
qed

lemma sample_pool_distinct:
  "distinct pool \<Longrightarrow> k \<le> length pool \<Longrightarrow>
   length (sample_pool pool k draws i) = k \<and> distinct (sample_pool pool k draws i)
   \<and> set (sample_pool pool k draws i) \<subseteq> set pool"
proof (induction k arbitrary: pool i)
  case 0
  then show ?case by simp
next
  case (Suc k)
  then have ne: "pool \<noteq> []" by auto
  let ?j = "randbelow (length pool) (draws i)"
  let ?rest = "butlast (pool[?j := last pool])"
  have j: "?j < length pool"
    using ne by (simp add: randbelow_def)
  from set_swap_out [OF Suc.prems(1) j]
  have d: "distinct ?rest" and s: "set ?rest = set pool - {pool ! ?j}" by simp_all
  have "k \<le> length ?rest" using Suc.prems(2) by simp
  from Suc.IH [OF d this, of "Suc i"]
  have "length (sample_pool ?rest k draws (Suc i)) = k"
    and "distinct (sample_pool ?rest k draws (Suc i))"
    and "set (sample_pool ?rest k draws (Suc i)) \<subseteq> set pool - {pool ! ?j}"
    using s by simp_all
  with ne j show ?case
    by (auto simp: Let_def)
qed

lemma random_sample_positions:
  assumes "0 \<le> k" and "k \<le> int (length population)"
  shows "\<exists>picks. random_sample [0..<length population] k draws = Inr picks
           \<and> int (length picks) = k \<and> distinct picks \<and> (\<forall>p\<in>set picks. p < length population)
           \<and> random_sample population k draws = Inr (map (\<lambda>p. population ! p) picks)"
proof -
  let ?picks = "sample_pool [0..<length population] (nat k) draws 0"
  have "nat k \<le> length [0..<length population]" using assms by simp
  from sample_pool_distinct [OF distinct_upt this, of draws 0]
  have "length ?picks = nat k" "distinct ?picks" "set ?picks \<subseteq> {0..<length population}"
    by simp_all
  moreover have "population = map (\<lambda>p. population ! p) [0..<length population]"
    by (simp add: map_nth)
  then have "sample_pool population (nat k) draws 0 = map (\<lambda>p. population ! p) ?picks"
    by (metis sample_pool_map)
  ultimately show ?thesis
    using assms by (auto simp: random_sample_def)
qed

lemma one_length_iff:
  "one_length rows \<longleftrightarrow> (\<forall>r\<in>set rows. \<forall>r'\<in>set rows. length r = length r')"
  by (simp add: one_length_def list_all_iff)

lemma vstack_iff:
  "vstack rows = (if rows \<noteq> [] \<and> one_length rows then Inr rows else Inl ValueError)"
proof (cases rows)
  case Nil
  then show ?thesis by (simp add: vstack_def)
next
  case (Cons r rs)
  have "list_all (\<lambda>x. length x = length r) rs \<longleftrightarrow> one_length (r # rs)"
    by (auto simp: one_length_iff list_all_iff)
  with Cons show ?thesis by (simp add: vstack_def)
qed

lemma sample_fst: "fst (sample b draws) = b"
  by (simp add: sample_def)

lemma sample_result:
  assumes "random_sample (memory b) (batch_size b) draws = Inr es" and "es \<noteq> []"
  shows "snd (sample b draws) =
           (if one_length (map state es) \<and> one_length (map next_state es)
            then Inr (map state es, map action es, map reward es, map next_state es,
                      map (\<lambda>e. if done_flag e then 1 else 0) es)
            else Inl ValueError)"
  using assms by (simp add: sample_def vstack_iff vstack_scalars_def)

lemma sample_only_ValueError: "snd (sample b draws) = Inl err \<Longrightarrow> err = ValueError"
  by (auto simp: sample_def random_sample_def vstack_iff vstack_scalars_def
      split: sum.splits if_splits)

text \<open>
  Claim C5 fails as stated in two cases, although the buffer holds at least as many records
  as the batch size asks for. With a batch size of zero, \<^verbatim>\<open>random.sample\<close> returns no
  record and \<^verbatim>\<open>np.vstack\<close> of an empty list raises \<^verbatim>\<open>ValueError\<close>. With a batch size
  of two and two stored records whose states have different lengths, both records are
  drawn and \<^verbatim>\<open>np.vstack\<close> raises \<^verbatim>\<open>ValueError\<close>.
\<close>

theorem sample_raises_with_enough_records:
  "batch_size \<lparr>rb_action_size = 2,
       memory = [\<lparr>state = [1, 2], action = 0, reward = 5, next_state = [3, 4], done_flag = False\<rparr>],
       maxlen = 3, batch_size = 0\<rparr>
     \<le> int (len \<lparr>rb_action_size = 2,
       memory = [\<lparr>state = [1, 2], action = 0, reward = 5, next_state = [3, 4], done_flag = False\<rparr>],
       maxlen = 3, batch_size = 0\<rparr>)
   \<and> snd (sample \<lparr>rb_action_size = 2,
       memory = [\<lparr>state = [1, 2], action = 0, reward = 5, next_state = [3, 4], done_flag = False\<rparr>],
       maxlen = 3, batch_size = 0\<rparr> zero_draws) = Inl ValueError
   \<and> batch_size \<lparr>rb_action_size = 2,
       memory = [\<lparr>state = [1, 2], action = 0, reward = 5, next_state = [3, 4], done_flag = False\<rparr>,
                 \<lparr>state = [1], action = 0, reward = 5, next_state = [3, 4], done_flag = False\<rparr>],
       maxlen = 3, batch_size = 2\<rparr>
     \<le> int (len \<lparr>rb_action_size = 2,
       memory = [\<lparr>state = [1, 2], action = 0, reward = 5, next_state = [3, 4], done_flag = False\<rparr>,
                 \<lparr>state = [1], action = 0, reward = 5, next_state = [3, 4], done_flag = False\<rparr>],
       maxlen = 3, batch_size = 2\<rparr>)
   \<and> snd (sample \<lparr>rb_action_size = 2,
       memory = [\<lparr>state = [1, 2], action = 0, reward = 5, next_state = [3, 4], done_flag = False\<rparr>,
                 \<lparr>state = [1], action = 0, reward = 5, next_state = [3, 4], done_flag = False\<rparr>],
       maxlen = 3, batch_size = 2\<rparr> zero_draws) = Inl ValueError"
  by (simp add: len_def sample_def random_sample_def vstack_def vstack_scalars_def
      randbelow_def zero_draws_def numeral_2_eq_2)

text \<open>
  Claim C5, amended. \<^verbatim>\<open>sample\<close> never changes the buffer. For a batch size \<open>B\<close> with
  \<open>1 \<le> B\<close> and at least \<open>B\<close> stored records, and for every sequence of raw draws of the
  generator, it draws the records at \<open>B\<close> distinct positions of the buffer. When the drawn
  records have states of one length and next states of one length, it returns five arrays
  of \<open>B\<close> rows each, and row \<open>i\<close> of every array comes from the \<open>i\<close>-th drawn record;
  otherwise it raises \<^verbatim>\<open>ValueError\<close>. With \<open>B = 0\<close> it raises \<^verbatim>\<open>ValueError\<close>.
\<close>

theorem sample_batch:
  "fst (sample b draws) = b
   \<and> (batch_size b = 0 \<longrightarrow> snd (sample b draws) = Inl ValueError)
   \<and> (1 \<le> batch_size b \<and> batch_size b \<le> int (len b) \<longrightarrow>
        (\<exists>picks. random_sample [0..<len b] (batch_size b) draws = Inr picks
           \<and> int (length picks) = batch_size b \<and> distinct picks \<and> (\<forall>p\<in>set picks. p < len b)
           \<and> drawn b draws = map (\<lambda>p. memory b ! p) picks
           \<and> (if one_length (map state (drawn b draws))
                   \<and> one_length (map next_state (drawn b draws))
               then snd (sample b draws) =
                      Inr (map state (drawn b draws), map action (drawn b draws),
                           map reward (drawn b draws), map next_state (drawn b draws),
                           map (\<lambda>e. if done_flag e then 1 else 0) (drawn b draws))
               else snd (sample b draws) = Inl ValueError)))"
proof -
  have empty: "snd (sample b draws) = Inl ValueError" if "batch_size b = 0"
    using that by (simp add: sample_def random_sample_def vstack_def)
  have full: "\<exists>picks. random_sample [0..<len b] (batch_size b) draws = Inr picks
           \<and> int (length picks) = batch_size b \<and> distinct picks \<and> (\<forall>p\<in>set picks. p < len b)
           \<and> drawn b draws = map (\<lambda>p. memory b ! p) picks
           \<and> (if one_length (map state (drawn b draws))
                   \<and> one_length (map next_state (drawn b draws))
               then snd (sample b draws) =
                      Inr (map state (drawn b draws), map action (drawn b draws),
                           map reward (drawn b draws), map next_state (drawn b draws),
                           map (\<lambda>e. if done_flag e then 1 else 0) (drawn b draws))
               else snd (sample b draws) = Inl ValueError)"
    if "1 \<le> batch_size b" "batch_size b \<le> int (len b)"
  proof -
    from that have "0 \<le> batch_size b" "batch_size b \<le> int (length (memory b))"
      by (simp_all add: len_def)
    from random_sample_positions [OF this, of draws]
    obtain picks where picks: "random_sample [0..<len b] (batch_size b) draws = Inr picks"
      "int (length picks) = batch_size b" "distinct picks" "\<forall>p\<in>set picks. p < len b"
      and es: "random_sample (memory b) (batch_size b) draws = Inr (map (\<lambda>p. memory b ! p) picks)"
      by (auto simp: len_def)
    from es have d: "drawn b draws = map (\<lambda>p. memory b ! p) picks"
      by (simp add: drawn_def)
    from picks(2) that(1) have "map (\<lambda>p. memory b ! p) picks \<noteq> []" by auto
    from sample_result [OF es this] picks d show ?thesis by auto
  qed
  from empty full sample_fst [of b draws] show ?thesis by blast
qed

theorem sample_batch_witness:
  "sample \<lparr>rb_action_size = 2,
           memory = [\<lparr>state = [1, 2], action = 0, reward = 5, next_state = [3, 4], done_flag = False\<rparr>,
                     \<lparr>state = [3, 4], action = 1, reward = 6, next_state = [5, 6], done_flag = True\<rparr>,
                     \<lparr>state = [5, 6], action = 0, reward = 7, next_state = [7, 8], done_flag = False\<rparr>],
           maxlen = 3, batch_size = 2\<rparr> zero_draws
   = (\<lparr>rb_action_size = 2,
           memory = [\<lparr>state = [1, 2], action = 0, reward = 5, next_state = [3, 4], done_flag = False\<rparr>,
                     \<lparr>state = [3, 4], action = 1, reward = 6, next_state = [5, 6], done_flag = True\<rparr>,
                     \<lparr>state = [5, 6], action = 0, reward = 7, next_state = [7, 8], done_flag = False\<rparr>],
           maxlen = 3, batch_size = 2\<rparr>,
      Inr ([[1, 2], [5, 6]], [0, 0], [5, 7], [[3, 4], [7, 8]], [0, 0]))"
proof -
  define b where "b = \<lparr>rb_action_size = 2,
           memory = [\<lparr>state = [1, 2], action = 0, reward = 5, next_state = [3, 4], done_flag = False\<rparr>,
                     \<lparr>state = [3, 4], action = 1, reward = 6, next_state = [5, 6], done_flag = True\<rparr>,
                     \<lparr>state = [5, 6], action = 0, reward = 7, next_state = [7, 8], done_flag = False\<rparr>],
           maxlen = 3, batch_size = 2\<rparr>"
  have size: "1 \<le> batch_size b \<and> batch_size b \<le> int (len b)"
    by (simp add: b_def len_def)
  have d: "drawn b zero_draws =
      [\<lparr>state = [1, 2], action = 0, reward = 5, next_state = [3, 4], done_flag = False\<rparr>,
       \<lparr>state = [5, 6], action = 0, reward = 7, next_state = [7, 8], done_flag = False\<rparr>]"
    by (simp add: drawn_def b_def random_sample_def randbelow_def zero_draws_def numeral_2_eq_2)
  have shapes: "one_length (map state (drawn b zero_draws))
      \<and> one_length (map next_state (drawn b zero_draws))"
    by (simp add: d one_length_def)
  from sample_batch [of b zero_draws] size shapes
  have "fst (sample b zero_draws) = b"
    and "snd (sample b zero_draws) =
      Inr (map state (drawn b zero_draws), map action (drawn b zero_draws),
           map reward (drawn b zero_draws), map next_state (drawn b zero_draws),
           map (\<lambda>e. if done_flag e then 1 else 0) (drawn b zero_draws))"
    by auto
  then have "sample b zero_draws = (b, Inr ([[1, 2], [5, 6]], [0, 0], [5, 7], [[3, 4], [7, 8]], [0, 0]))"
    by (simp add: d prod_eq_iff)
  then show ?thesis by (simp add: b_def)
qed

section \<open>Properties of \<^verbatim>\<open>step\<close>\<close>

lemma step_cases:
  "step N a s ac r s' d picks =
     (let a2 = a\<lparr>t_step := Suc (t_step a) mod UPDATE_EVERY,
                 agent_memory := add (agent_memory a) s ac r s' d\<rparr>
      in if Suc (t_step a) mod UPDATE_EVERY = 0 \<and> BATCH_SIZE < int (len (agent_memory a2)) then
           (case snd (sample (agent_memory a2) picks) of
              Inl err \<Rightarrow> (a2, SampleRaised err)
            | Inr experiences \<Rightarrow>
                (fst (learn N a2 experiences GAMMA), LearnCalled (snd (learn N a2 experiences GAMMA))))
         else (a2, NotTriggered))"
proof -
  obtain m res where smp: "sample (add (agent_memory a) s ac r s' d) picks = (m, res)"
    by (cases "sample (add (agent_memory a) s ac r s' d) picks")
  then have m: "m = add (agent_memory a) s ac r s' d"
    by (simp add: sample_def)
  show ?thesis
    using smp m by (cases res) (simp_all add: step_def Let_def case_prod_beta)
qed

lemma learn_frame:
  "agent_memory (fst (learn N a experiences gamma)) = agent_memory a
   \<and> t_step (fst (learn N a experiences gamma)) = t_step a
   \<and> local_mode (fst (learn N a experiences gamma)) = local_mode a"
  by (simp add: learn_def split: prod.splits sum.splits)

lemma step_store:
  "agent_memory (fst (step N a s ac r s' d picks)) = add (agent_memory a) s ac r s' d"
  by (simp add: step_cases Let_def learn_frame split: sum.splits)

lemma step_counter:
  "t_step (fst (step N a s ac r s' d picks)) = Suc (t_step a) mod UPDATE_EVERY"
  by (simp add: step_cases Let_def learn_frame split: sum.splits)

lemma step_learn_called:
  "learn_called (snd (step N a s ac r s' d picks)) \<longleftrightarrow>
     t_step (fst (step N a s ac r s' d picks)) = 0
     \<and> BATCH_SIZE < int (len (agent_memory (fst (step N a s ac r s' d picks))))
     \<and> (\<exists>b. snd (sample (agent_memory (fst (step N a s ac r s' d picks))) picks) = Inr b)"
  unfolding step_store step_counter
  by (auto simp: step_cases Let_def split: sum.splits)

lemma steps_append:
  "steps N a (cs @ ds) =
     (fst (steps N (fst (steps N a cs)) ds), snd (steps N a cs) @ snd (steps N (fst (steps N a cs)) ds))"
  by (induction cs arbitrary: a) (simp_all add: case_prod_beta)

lemma steps_length: "length (snd (steps N a cs)) = length cs"
  by (induction cs arbitrary: a) (simp_all add: case_prod_beta)

lemma steps_store:
  "agent_memory (fst (steps N a cs)) = add_all (agent_memory a) (map fst cs)"
proof (induction cs arbitrary: a)
  case Nil
  then show ?case by simp
next
  case (Cons c cs)
  have "agent_memory (fst (steps N a (c # cs))) =
      agent_memory (fst (steps N (fst (step N a (state (fst c)) (action (fst c)) (reward (fst c))
        (next_state (fst c)) (done_flag (fst c)) (snd c))) cs))"
    by (simp add: case_prod_beta)
  then show ?case by (simp add: Cons.IH step_store)
qed

lemma steps_counter:
  "t_step (fst (steps N a cs)) = (if cs = [] then t_step a else (t_step a + length cs) mod UPDATE_EVERY)"
proof (induction cs arbitrary: a)
  case Nil
  then show ?case by simp
next
  case (Cons c cs)
  have "t_step (fst (steps N a (c # cs))) =
      t_step (fst (steps N (fst (step N a (state (fst c)) (action (fst c)) (reward (fst c))
        (next_state (fst c)) (done_flag (fst c)) (snd c))) cs))"
    by (simp add: case_prod_beta)
  then show ?case
    by (simp add: Cons.IH step_counter mod_Suc_eq mod_add_left_eq)
qed

lemma steps_nth:
  assumes "i < length cs"
  shows "snd (steps N a cs) ! i =
           snd (step N (fst (steps N a (take i cs))) (state (fst (cs ! i))) (action (fst (cs ! i)))
             (reward (fst (cs ! i))) (next_state (fst (cs ! i))) (done_flag (fst (cs ! i))) (snd (cs ! i)))"
    and "fst (steps N a (take (Suc i) cs)) =
           fst (step N (fst (steps N a (take i cs))) (state (fst (cs ! i))) (action (fst (cs ! i)))
             (reward (fst (cs ! i))) (next_state (fst (cs ! i))) (done_flag (fst (cs ! i))) (snd (cs ! i)))"
proof -
  have split: "cs = take i cs @ cs ! i # drop (Suc i) cs"
    using assms by (simp add: id_take_nth_drop)
  have "snd (steps N a cs) ! i = snd (steps N a (take i cs @ cs ! i # drop (Suc i) cs)) ! i"
    using split by simp
  also have "\<dots> = snd (steps N (fst (steps N a (take i cs))) (cs ! i # drop (Suc i) cs)) ! 0"
    using assms by (simp add: steps_append nth_append steps_length)
  finally show "snd (steps N a cs) ! i =
           snd (step N (fst (steps N a (take i cs))) (state (fst (cs ! i))) (action (fst (cs ! i)))
             (reward (fst (cs ! i))) (next_state (fst (cs ! i))) (done_flag (fst (cs ! i))) (snd (cs ! i)))"
    by (simp add: case_prod_beta)
  have "take (Suc i) cs = take i cs @ [cs ! i]"
    using assms by (simp add: take_Suc_conv_app_nth)
  then show "fst (steps N a (take (Suc i) cs)) =
           fst (step N (fst (steps N a (take i cs))) (state (fst (cs ! i))) (action (fst (cs ! i)))
             (reward (fst (cs ! i))) (next_state (fst (cs ! i))) (done_flag (fst (cs ! i))) (snd (cs ! i)))"
    by (simp add: steps_append case_prod_beta)
qed

lemma add_all_batch_size: "batch_size (add_all b es) = batch_size b"
  by (induction es arbitrary: b) (simp_all add: add_def)

lemma add_all_from_empty:
  "memory b = [] \<Longrightarrow> set (memory (add_all b es)) \<subseteq> set es"
  using add_all_history [of b "[]" es] by (auto dest: in_set_dropD)

lemma Agent_init_fields:
  assumes "Agent_init N ssz asz seed = Inr a0"
  shows "t_step a0 = 0" and "memory (agent_memory a0) = []"
    and "batch_size (agent_memory a0) = BATCH_SIZE" and "maxlen (agent_memory a0) = nat BUFFER_SIZE"
  using assms
  by (auto simp: Agent_init_def ReplayBuffer_init_def Let_def BUFFER_SIZE_def split: if_splits)


lemma drawn_subset: "set (drawn b draws) \<subseteq> set (memory b)"
proof (cases "0 \<le> batch_size b \<and> batch_size b \<le> int (length (memory b))")
  case True
  then have "0 \<le> batch_size b" "batch_size b \<le> int (length (memory b))" by simp_all
  from random_sample_positions [OF this, of draws] show ?thesis
    by (auto simp: drawn_def)
next
  case False
  then show ?thesis by (auto simp: drawn_def random_sample_def)
qed

lemma sample_returns_iff:
  assumes "1 \<le> batch_size b" and "batch_size b \<le> int (len b)"
  shows "(\<exists>x. snd (sample b draws) = Inr x) \<longleftrightarrow>
           one_length (map state (drawn b draws)) \<and> one_length (map next_state (drawn b draws))"
proof -
  from assms have "0 \<le> batch_size b" "batch_size b \<le> int (length (memory b))"
    by (simp_all add: len_def)
  from random_sample_positions [OF this, of draws]
  obtain picks where k: "int (length picks) = batch_size b"
    and es: "random_sample (memory b) (batch_size b) draws = Inr (map (\<lambda>p. memory b ! p) picks)"
    by auto
  from k assms(1) have "map (\<lambda>p. memory b ! p) picks \<noteq> []" by auto
  from sample_result [OF es this] es show ?thesis
    by (simp add: drawn_def)
qed

lemma sample_pool_zero_draws:
  "\<exists>rest. sample_pool (x # mid @ [y]) (Suc (Suc k)) zero_draws i = x # y # rest"
  by (simp add: randbelow_def zero_draws_def Let_def butlast_append)

text \<open>
  Claim C3 fails as stated when the drawn records cannot be stacked. An agent as
  \<^verbatim>\<open>Agent(2, 2, seed)\<close> builds it is given 67 records with states of length \<open>2\<close> and
  then one with a state of length \<open>1\<close>. After that call the counter is \<open>0\<close> and the
  buffer holds \<open>68\<close> records, more than \<^verbatim>\<open>BATCH_SIZE\<close>; \<^verbatim>\<open>sample\<close> draws the first and
  the last record, \<^verbatim>\<open>np.vstack\<close> raises \<^verbatim>\<open>ValueError\<close>, and \<^verbatim>\<open>learn\<close> is not called.
\<close>

theorem step_sample_raises_before_learn:
  "Agent_init toy 2 2 0 = Inr toy_agent
   \<and> t_step (fst (steps toy toy_agent
        (replicate 67
           (\<lparr>state = [1, 2], action = 0, reward = 1, next_state = [3, 4], done_flag = False\<rparr>,
            zero_draws)
         @ [(\<lparr>state = [1], action = 0, reward = 1, next_state = [3, 4], done_flag = False\<rparr>,
             zero_draws)]))) = 0
   \<and> BATCH_SIZE < int (len (agent_memory (fst (steps toy toy_agent
        (replicate 67
           (\<lparr>state = [1, 2], action = 0, reward = 1, next_state = [3, 4], done_flag = False\<rparr>,
            zero_draws)
         @ [(\<lparr>state = [1], action = 0, reward = 1, next_state = [3, 4], done_flag = False\<rparr>,
             zero_draws)])))))
   \<and> snd (steps toy toy_agent
        (replicate 67
           (\<lparr>state = [1, 2], action = 0, reward = 1, next_state = [3, 4], done_flag = False\<rparr>,
            zero_draws)
         @ [(\<lparr>state = [1], action = 0, reward = 1, next_state = [3, 4], done_flag = False\<rparr>,
             zero_draws)])) ! 67 = SampleRaised ValueError"
proof -
  define good where
    "good = \<lparr>state = [1, 2], action = 0, reward = 1, next_state = [3, 4], done_flag = False\<rparr>"
  define bad where
    "bad = \<lparr>state = [1], action = 0, reward = 1, next_state = [3, 4], done_flag = False\<rparr>"
  define cs where "cs = replicate 67 (good, zero_draws) @ [(bad, zero_draws)]"
  define i :: nat where "i = 67"
  have i: "i < length cs" and all: "take (Suc i) cs = cs"
    and last: "snd (cs ! i) = zero_draws"
    and firsts: "map fst cs = good # replicate 66 good @ [bad]"
    and count: "Suc i mod UPDATE_EVERY = 0"
    by (simp_all add: cs_def i_def UPDATE_EVERY_def nth_append replicate_append_same
        flip: replicate_Suc)
  have net: "replicate 2 (1 :: real) = [1, 1]"
    by (simp add: numeral_2_eq_2)
  have init: "Agent_init toy 2 2 0 = Inr toy_agent"
    by (simp add: Agent_init_def ReplayBuffer_init_def toy_def toy_agent_def BUFFER_SIZE_def
        BATCH_SIZE_def Let_def net)
  note fields = Agent_init_fields [OF init]
  let ?after = "fst (steps toy toy_agent (take (Suc i) cs))"
  let ?m = "agent_memory ?after"
  have "memory (agent_memory toy_agent)
      = drop (length ([] :: experience list) - maxlen (agent_memory toy_agent)) []"
    by (simp add: fields)
  from add_all_history [OF this, of "map fst cs"]
  have "memory (add_all (agent_memory toy_agent) (map fst cs)) = map fst cs"
    by (simp add: fields BUFFER_SIZE_def cs_def)
  then have mem: "memory ?m = good # replicate 66 good @ [bad]"
    by (simp only: steps_store firsts all)
  have size: "len ?m = 68"
    by (simp add: len_def mem)
  have bs: "batch_size ?m = 64"
    by (simp add: steps_store add_all_batch_size fields BATCH_SIZE_def)
  have many: "BATCH_SIZE < int (len ?m)"
    by (simp add: size BATCH_SIZE_def)
  have zero: "t_step ?after = 0"
    using i count by (auto simp: steps_counter fields)
  obtain rest where "sample_pool (memory ?m) (nat (batch_size ?m)) zero_draws 0 = good # bad # rest"
  proof -
    have "nat (batch_size ?m) = Suc (Suc 62)" by (simp add: bs)
    with sample_pool_zero_draws [of good "replicate 66 good" bad 62 0] mem that
    show ?thesis by auto
  qed
  then have d: "drawn ?m zero_draws = good # bad # rest"
    by (simp add: drawn_def random_sample_def bs size [unfolded len_def])
  have "\<not> one_length (map state (drawn ?m zero_draws))"
    by (simp add: d one_length_def good_def bad_def)
  with sample_returns_iff [of ?m zero_draws] bs size
  have "\<not> (\<exists>x. snd (sample ?m zero_draws) = Inr x)" by simp
  then obtain err where "snd (sample ?m zero_draws) = Inl err"
    by (cases "snd (sample ?m zero_draws)") auto
  with sample_only_ValueError have raised: "snd (sample ?m zero_draws) = Inl ValueError"
    by blast
  let ?before = "fst (steps toy toy_agent (take i cs))"
  let ?call = "step toy ?before (state (fst (cs ! i))) (action (fst (cs ! i))) (reward (fst (cs ! i)))
      (next_state (fst (cs ! i))) (done_flag (fst (cs ! i))) (snd (cs ! i))"
  from steps_nth [OF i, of toy toy_agent]
  have res: "snd (steps toy toy_agent cs) ! i = snd ?call" and after: "?after = fst ?call"
    by simp_all
  have "snd ?call = SampleRaised ValueError"
  proof -
    have store: "add (agent_memory ?before) (state (fst (cs ! i))) (action (fst (cs ! i)))
        (reward (fst (cs ! i))) (next_state (fst (cs ! i))) (done_flag (fst (cs ! i))) = ?m"
      unfolding after by (simp add: step_store)
    have counter: "Suc (t_step ?before) mod UPDATE_EVERY = 0"
      using zero unfolding after by (simp add: step_counter)
    show ?thesis
      using raised many last
      by (simp add: step_cases Let_def store counter)
  qed
  with res have "snd (steps toy toy_agent cs) ! i = SampleRaised ValueError" by simp
  moreover from zero have "t_step (fst (steps toy toy_agent cs)) = 0"
    by (simp only: all)
  moreover from many have "BATCH_SIZE < int (len (agent_memory (fst (steps toy toy_agent cs))))"
    by (simp only: all)
  ultimately show ?thesis
    using init unfolding cs_def good_def bad_def i_def by blast
qed

text \<open>
  Claim C3, amended. Take an agent as \<^verbatim>\<open>Agent\<close> builds it and any sequence \<open>cs\<close> of calls of
  \<^verbatim>\<open>step\<close>, and look at call \<open>i\<close> and at the agent after it.
  \<^item> The call invokes \<^verbatim>\<open>learn\<close> if and only if the incremented counter is \<open>0\<close>, the
    buffer holds more than \<^verbatim>\<open>BATCH_SIZE\<close> records, and the records that \<^verbatim>\<open>sample\<close>
    draws have states of one length and next states of one length, so that they can be
    stacked into a batch.
  \<^item> The counter after call \<open>i\<close> is \<open>(i + 1) mod UPDATE_EVERY\<close>, and two calls that both
    invoke \<^verbatim>\<open>learn\<close> are at least \<^verbatim>\<open>UPDATE_EVERY\<close> calls apart.
\<close>

theorem learning_schedule:
  assumes "Agent_init N ssz asz seed = Inr a0" and "i < length cs"
  shows "(learn_called (snd (steps N a0 cs) ! i) \<longleftrightarrow>
            t_step (fst (steps N a0 (take (Suc i) cs))) = 0
            \<and> BATCH_SIZE < int (len (agent_memory (fst (steps N a0 (take (Suc i) cs)))))
            \<and> one_length (map state
                 (drawn (agent_memory (fst (steps N a0 (take (Suc i) cs)))) (snd (cs ! i))))
            \<and> one_length (map next_state
                 (drawn (agent_memory (fst (steps N a0 (take (Suc i) cs)))) (snd (cs ! i)))))
       \<and> t_step (fst (steps N a0 (take (Suc i) cs))) = Suc i mod UPDATE_EVERY
       \<and> (\<forall>j<length cs. i < j \<and> learn_called (snd (steps N a0 cs) ! i)
              \<and> learn_called (snd (steps N a0 cs) ! j) \<longrightarrow> i + UPDATE_EVERY \<le> j)"
proof -
  let ?after = "\<lambda>k. fst (steps N a0 (take k cs))"
  let ?res = "\<lambda>k. snd (steps N a0 cs) ! k"
  note init = Agent_init_fields [OF assms(1)]
  have called: "learn_called (?res k) \<longleftrightarrow>
      t_step (?after (Suc k)) = 0 \<and> BATCH_SIZE < int (len (agent_memory (?after (Suc k))))
      \<and> (\<exists>b. snd (sample (agent_memory (?after (Suc k))) (snd (cs ! k))) = Inr b)"
    if "k < length cs" for k
    unfolding steps_nth [OF that] by (rule step_learn_called)
  have counter: "t_step (?after (Suc k)) = Suc k mod UPDATE_EVERY" if "k < length cs" for k
    using that by (auto simp: steps_counter init(1) min_absorb2 Suc_leI)
  have bs: "batch_size (agent_memory (?after k)) = BATCH_SIZE" for k
    by (simp add: steps_store add_all_batch_size init(3))
  have stack: "(\<exists>b. snd (sample (agent_memory (?after (Suc i))) (snd (cs ! i))) = Inr b) \<longleftrightarrow>
      one_length (map state (drawn (agent_memory (?after (Suc i))) (snd (cs ! i))))
      \<and> one_length (map next_state (drawn (agent_memory (?after (Suc i))) (snd (cs ! i))))"
    if "BATCH_SIZE < int (len (agent_memory (?after (Suc i))))"
    using that bs [of "Suc i"]
    by (intro sample_returns_iff) (simp_all add: BATCH_SIZE_def)
  have iff: "learn_called (?res i) \<longleftrightarrow>
      t_step (?after (Suc i)) = 0 \<and> BATCH_SIZE < int (len (agent_memory (?after (Suc i))))
      \<and> one_length (map state (drawn (agent_memory (?after (Suc i))) (snd (cs ! i))))
      \<and> one_length (map next_state (drawn (agent_memory (?after (Suc i))) (snd (cs ! i))))"
    using called [OF assms(2)] stack by blast
  have gap: "i + UPDATE_EVERY \<le> j"
    if "j < length cs" "i < j" "learn_called (?res i)" "learn_called (?res j)" for j
  proof -
    from that called [OF assms(2)] called [OF that(1)]
    have "t_step (?after (Suc i)) = 0" "t_step (?after (Suc j)) = 0" by simp_all
    with counter [OF assms(2)] counter [OF that(1)]
    have "Suc i mod 4 = 0" "Suc j mod 4 = 0" by (simp_all add: UPDATE_EVERY_def)
    with \<open>i < j\<close> have "i + 4 \<le> j" by presburger
    then show ?thesis by (simp add: UPDATE_EVERY_def)
  qed
  from iff counter [OF assms(2)] gap show ?thesis by blast
qed

theorem learning_schedule_witness:
  "Agent_init toy 2 2 0 = Inr toy_agent
   \<and> learn_called (snd (steps toy toy_agent (replicate 68
        (\<lparr>state = [1, 2], action = 0, reward = 1, next_state = [3, 4], done_flag = False\<rparr>,
         zero_draws))) ! 67)
   \<and> \<not> learn_called (snd (steps toy toy_agent (replicate 68
        (\<lparr>state = [1, 2], action = 0, reward = 1, next_state = [3, 4], done_flag = False\<rparr>,
         zero_draws))) ! 66)"
proof -
  define e where "e = \<lparr>state = [1, 2], action = 0, reward = 1, next_state = [3, 4], done_flag = False\<rparr>"
  define cs where "cs = replicate 68 (e, zero_draws)"
  define i j :: nat where "i = 67" and "j = 66"
  have i: "i < length cs" and j: "j < length cs"
    and all: "take (Suc i) cs = cs"
    and firsts: "map fst cs = replicate 68 e"
    and counts: "Suc i mod UPDATE_EVERY = 0" "Suc j mod UPDATE_EVERY \<noteq> 0"
    by (simp_all add: cs_def i_def j_def UPDATE_EVERY_def)
  have net: "replicate 2 (1 :: real) = [1, 1]"
    by (simp add: numeral_2_eq_2)
  have init: "Agent_init toy 2 2 0 = Inr toy_agent"
    by (simp add: Agent_init_def ReplayBuffer_init_def toy_def toy_agent_def BUFFER_SIZE_def
        BATCH_SIZE_def Let_def net)
  let ?m = "agent_memory (fst (steps toy toy_agent (take (Suc i) cs)))"
  have "memory (agent_memory toy_agent)
      = drop (length ([] :: experience list) - maxlen (agent_memory toy_agent)) []"
    by (simp add: toy_agent_def)
  from add_all_history [OF this, of "replicate 68 e"]
  have "memory (add_all (agent_memory toy_agent) (replicate 68 e)) = replicate 68 e"
    by (simp add: toy_agent_def)
  then have mem: "memory ?m = replicate 68 e"
    by (simp only: steps_store all firsts)
  have many: "BATCH_SIZE < int (len ?m)"
    by (simp add: len_def mem BATCH_SIZE_def)
  have "set (drawn ?m (snd (cs ! i))) \<subseteq> {e}"
    using drawn_subset [of ?m "snd (cs ! i)"] by (simp add: mem)
  then have shapes: "one_length (map state (drawn ?m (snd (cs ! i))))"
      "one_length (map next_state (drawn ?m (snd (cs ! i))))"
    by (auto simp: one_length_iff)
  note at_i = learning_schedule [OF init i]
  note at_j = learning_schedule [OF init j]
  from at_i counts(1) have zero: "t_step (fst (steps toy toy_agent (take (Suc i) cs))) = 0"
    by metis
  from at_i shapes zero many have yes: "learn_called (snd (steps toy toy_agent cs) ! i)"
    by blast
  from at_j counts(2) have "t_step (fst (steps toy toy_agent (take (Suc j) cs))) \<noteq> 0"
    by metis
  with at_j have no: "\<not> learn_called (snd (steps toy toy_agent cs) ! j)"
    by blast
  from init yes no show ?thesis
    unfolding cs_def e_def i_def j_def by blast
qed

section \<open>Properties of \<^verbatim>\<open>act\<close>\<close>

lemma argmax_scan_bound:
  "best < i \<Longrightarrow> argmax_scan best v i xs < i + length xs"
proof (induction xs arbitrary: best v i)
  case Nil
  then show ?case by simp
next
  case (Cons x xs)
  have new: "argmax_scan i x (Suc i) xs < Suc i + length xs"
    by (rule Cons.IH) simp
  have old: "argmax_scan best v (Suc i) xs < Suc i + length xs"
    using Cons.prems by (intro Cons.IH) simp
  from new old Cons.prems show ?case by simp
qed

lemma argmax_in_range:
  "q \<noteq> [] \<Longrightarrow> \<exists>k. argmax q = Inr (int k) \<and> k < length q"
proof -
  assume "q \<noteq> []"
  then obtain x rest where q: "q = x # rest" by (cases q) auto
  have "argmax_scan 0 x 1 rest < 1 + length rest"
    by (rule argmax_scan_bound) simp
  with q show ?thesis by (simp add: argmax_def)
qed

lemma arange_nth: "c < nat n \<Longrightarrow> arange n \<noteq> [] \<and> arange n ! c = int c"
proof -
  assume c: "c < nat n"
  then have "0 + int c \<le> n - 1" by simp
  then have "[0..n - 1] ! c = 0 + int c" by (rule nth_upto)
  moreover from c have "[0..n - 1] \<noteq> []" by (simp add: upto_Nil)
  ultimately show ?thesis by (simp add: arange_def)
qed

lemma arange_length: "length (arange n) = nat n"
  by (simp add: arange_def)

lemma random_choice_arange:
  "0 < n \<Longrightarrow> \<exists>k. random_choice (arange n) c = Inr (int k) \<and> k < nat n"
proof -
  assume n: "0 < n"
  let ?k = "randbelow (length (arange n)) c"
  have k: "?k < nat n"
    using n by (simp add: arange_length randbelow_def)
  from arange_nth [OF k] show ?thesis
    using k by (auto simp: random_choice_def)
qed

lemma act_cases:
  "act N a s eps r c =
     (case forward N Inference (qnetwork_local a) s of
        Inl err \<Rightarrow> (a\<lparr>local_mode := Inference\<rparr>, Inl err)
      | Inr q \<Rightarrow> (a\<lparr>local_mode := Training\<rparr>,
                  if eps < r then argmax q else random_choice (arange (action_size a)) c))"
  by (simp add: act_def Let_def split: sum.splits)

text \<open>
  Claim C7. The code departs from the claim at one outcome of the generator.
  \<^verbatim>\<open>random.random()\<close> returns a number \<open>r\<close> with \<open>0 \<le> r < 1\<close>, and the greedy branch is
  taken when \<open>r > eps\<close>. With \<open>eps = 0\<close> and \<open>r = 0\<close> the test fails and the random branch is
  taken: for the action values \<open>[1, 5]\<close>, whose largest entry has index \<open>1\<close>, the call
  returns the index \<open>0\<close> that \<^verbatim>\<open>random.choice\<close> draws.
\<close>

theorem act_zero_epsilon_not_always_greedy:
  "forward toy Inference (qnetwork_local toy_agent) [1, 5] = Inr [Finite 1, Finite 5]
   \<and> argmax [Finite 1, Finite 5] = Inr 1
   \<and> snd (act toy toy_agent [1, 5] 0 0 0) = Inr 0"
  by (simp add: act_cases toy_def toy_agent_def argmax_def random_choice_def arange_def
      upto.simps randbelow_def f32_of_real_small)

text \<open>
  Claim C8 fails as stated when the forward pass raises: \<^verbatim>\<open>train()\<close> is the statement after
  the forward pass, outside any \<^verbatim>\<open>finally\<close>, so it is not reached, and the local network
  stays in inference mode. Here the state has one entry and the network expects two.
\<close>

theorem act_error_leaves_inference_mode:
  "local_mode toy_agent = Training
   \<and> act toy toy_agent [1] 0 (1 / 2) 0 = (toy_agent\<lparr>local_mode := Inference\<rparr>, Inl RuntimeError)"
  by (simp add: act_cases toy_def toy_agent_def)

text \<open>
  Claim C8, amended. Every call of \<^verbatim>\<open>act\<close> leaves the parameters of both networks and the
  optimizer as they were; its result depends on the network only through its behaviour in
  inference mode; when the forward pass returns, the local network is in training mode after
  the call; when the forward pass raises, the call raises the same exception and the local
  network is left in inference mode.
\<close>

theorem act_frame_and_mode:
  "qnetwork_local (fst (act N a s eps r c)) = qnetwork_local a
   \<and> qnetwork_target (fst (act N a s eps r c)) = qnetwork_target a
   \<and> optimizer (fst (act N a s eps r c)) = optimizer a
   \<and> (forward M Inference = forward N Inference \<longrightarrow> act M a s eps r c = act N a s eps r c)
   \<and> ((\<exists>q. forward N Inference (qnetwork_local a) s = Inr q) \<longrightarrow>
         local_mode (fst (act N a s eps r c)) = Training)
   \<and> (forward N Inference (qnetwork_local a) s = Inl err \<longrightarrow>
         act N a s eps r c = (a\<lparr>local_mode := Inference\<rparr>, Inl err))"
  by (auto simp: act_cases split: sum.splits)

theorem act_frame_and_mode_witness:
  "local_mode (fst (act toy (toy_agent\<lparr>local_mode := Inference\<rparr>) [1, 5] 0 (1 / 2) 0)) = Training
   \<and> act toy toy_agent [1] 0 (1 / 2) 0 = (toy_agent\<lparr>local_mode := Inference\<rparr>, Inl RuntimeError)"
proof -
  have ok: "\<exists>q. forward toy Inference (qnetwork_local (toy_agent\<lparr>local_mode := Inference\<rparr>)) [1, 5] = Inr q"
    by (simp add: toy_def toy_agent_def)
  have bad: "forward toy Inference (qnetwork_local toy_agent) [1] = Inl RuntimeError"
    by (simp add: toy_def toy_agent_def)
  from act_frame_and_mode [of toy "toy_agent\<lparr>local_mode := Inference\<rparr>" "[1, 5]" 0 "1 / 2" 0 toy] ok
  have "local_mode (fst (act toy (toy_agent\<lparr>local_mode := Inference\<rparr>) [1, 5] 0 (1 / 2) 0)) = Training"
    by blast
  moreover from act_frame_and_mode [of toy toy_agent "[1]" 0 "1 / 2" 0 toy RuntimeError] bad
  have "act toy toy_agent [1] 0 (1 / 2) 0 = (toy_agent\<lparr>local_mode := Inference\<rparr>, Inl RuntimeError)"
    by blast
  ultimately show ?thesis by simp
qed

text \<open>
  Claim C10 fails as stated when the forward pass raises, and when the network has no
  action value to return. For a state with one entry, where the network expects two, the
  call raises and returns no action; for an agent built with \<open>action_size = 0\<close> the call
  raises in the greedy branch (\<^verbatim>\<open>np.argmax\<close> of an empty array) and in the random branch
  (\<^verbatim>\<open>random.choice\<close> from an empty sequence).
\<close>

theorem act_returns_no_action:
  "snd (act toy toy_agent [1] (1 / 2) (3 / 4) 0) = Inl RuntimeError
   \<and> snd (act toy toy_agent0 [] 0 (1 / 2) 0) = Inl ValueError
   \<and> snd (act toy toy_agent0 [] 1 (1 / 2) 0) = Inl IndexError"
  by (simp add: act_cases toy_def toy_agent_def toy_agent0_def argmax_def random_choice_def
      arange_def)

text \<open>
  Claim C10, amended. When the local network returns, for the state, a non-empty vector of
  \<open>action_size\<close> action values, then for every \<open>eps\<close>, every draw \<open>r\<close> and every raw draw
  of \<^verbatim>\<open>random.choice\<close> the call of \<^verbatim>\<open>act\<close> returns an integer \<open>n\<close> with
  \<open>0 \<le> n < action_size\<close>. When the forward pass raises, the call raises the same exception;
  when the vector is empty and \<open>action_size = 0\<close>, the call raises.
\<close>

theorem act_in_range:
  "(forward N Inference (qnetwork_local a) s = Inr q \<and> q \<noteq> [] \<and> int (length q) = action_size a
      \<longrightarrow> (\<exists>n. snd (act N a s eps r c) = Inr n \<and> 0 \<le> n \<and> n < action_size a))
   \<and> (forward N Inference (qnetwork_local a) s = Inl err \<longrightarrow> snd (act N a s eps r c) = Inl err)
   \<and> (forward N Inference (qnetwork_local a) s = Inr [] \<and> action_size a = 0
      \<longrightarrow> (\<exists>err'. snd (act N a s eps r c) = Inl err'))"
proof -
  have range: "\<exists>n. snd (act N a s eps r c) = Inr n \<and> 0 \<le> n \<and> n < action_size a"
    if fwd: "forward N Inference (qnetwork_local a) s = Inr q" and ne: "q \<noteq> []"
      and size: "int (length q) = action_size a"
  proof (cases "eps < r")
    case True
    from argmax_in_range [OF ne] fwd size True show ?thesis
      by (auto simp: act_cases)
  next
    case False
    from ne have "0 < length q" by simp
    with size have "0 < action_size a" by linarith
    from random_choice_arange [OF this, of c] fwd False show ?thesis
      by (auto simp: act_cases)
  qed
  have raised: "snd (act N a s eps r c) = Inl err"
    if "forward N Inference (qnetwork_local a) s = Inl err"
    using that by (simp add: act_cases)
  have empty: "\<exists>err'. snd (act N a s eps r c) = Inl err'"
    if "forward N Inference (qnetwork_local a) s = Inr []" "action_size a = 0"
    using that by (simp add: act_cases argmax_def random_choice_def arange_def)
  from range raised empty show ?thesis by blast
qed

theorem act_in_range_witness:
  "(\<exists>n. snd (act toy toy_agent [1, 5] (1 / 10) (1 / 2) 7) = Inr n \<and> 0 \<le> n \<and> n < 2)
   \<and> (\<exists>n. snd (act toy toy_agent [1, 5] 1 (1 / 2) 7) = Inr n \<and> 0 \<le> n \<and> n < 2)
   \<and> snd (act toy toy_agent [1] (1 / 10) (1 / 2) 7) = Inl RuntimeError
   \<and> (\<exists>err'. snd (act toy toy_agent0 [] (1 / 10) (1 / 2) 7) = Inl err')"
proof -
  have fwd: "forward toy Inference (qnetwork_local toy_agent) [1, 5] = Inr [Finite 1, Finite 5]
      \<and> [Finite 1, Finite 5] \<noteq> [] \<and> int (length [Finite 1, Finite 5]) = action_size toy_agent"
    by (simp add: toy_def toy_agent_def f32_of_real_small)
  have bad: "forward toy Inference (qnetwork_local toy_agent) [1] = Inl RuntimeError"
    by (simp add: toy_def toy_agent_def)
  have none: "forward toy Inference (qnetwork_local toy_agent0) [] = Inr [] \<and> action_size toy_agent0 = 0"
    by (simp add: toy_def toy_agent0_def)
  have two: "action_size toy_agent = 2" by (simp add: toy_agent_def)
  from act_in_range [where N = toy and a = toy_agent and s = "[1, 5]" and eps = "1 / 10"
      and r = "1 / 2" and c = 7 and q = "[Finite 1, Finite 5]"] fwd
  have "\<exists>n. snd (act toy toy_agent [1, 5] (1 / 10) (1 / 2) 7) = Inr n \<and> 0 \<le> n \<and> n < 2"
    unfolding two by blast
  moreover from act_in_range [where N = toy and a = toy_agent and s = "[1, 5]" and eps = 1
      and r = "1 / 2" and c = 7 and q = "[Finite 1, Finite 5]"] fwd
  have "\<exists>n. snd (act toy toy_agent [1, 5] 1 (1 / 2) 7) = Inr n \<and> 0 \<le> n \<and> n < 2"
    unfolding two by blast
  moreover from act_in_range [where N = toy and a = toy_agent and s = "[1]" and eps = "1 / 10"
      and r = "1 / 2" and c = 7 and err = RuntimeError] bad
  have "snd (act toy toy_agent [1] (1 / 10) (1 / 2) 7) = Inl RuntimeError"
    by blast
  moreover from act_in_range [where N = toy and a = toy_agent0 and s = "[]" and eps = "1 / 10"
      and r = "1 / 2" and c = 7] none
  have "\<exists>err'. snd (act toy toy_agent0 [] (1 / 10) (1 / 2) 7) = Inl err'"
    by blast
  ultimately show ?thesis by blast
qed

section \<open>Properties of the soft update\<close>







section \<open>Records that do not fit the agent\<close>

lemma sample_not_stackable:
  assumes "\<not> one_length (map state (drawn b draws)) \<or> \<not> one_length (map next_state (drawn b draws))"
  shows "snd (sample b draws) = Inl ValueError"
proof (cases "random_sample (memory b) (batch_size b) draws")
  case (Inl err)
  then have "drawn b draws = []" by (simp add: drawn_def)
  with assms show ?thesis by (simp add: one_length_def)
next
  case (Inr es)
  then have d: "drawn b draws = es" by (simp add: drawn_def)
  with assms have "es \<noteq> []" by (auto simp: one_length_def)
  from sample_result [OF Inr this] assms d show ?thesis by auto
qed

lemma gather_out_of_range:
  assumes "k < length idx" and "k < length inp"
    and "idx ! k < 0 \<or> int (length (inp ! k)) \<le> idx ! k"
  shows "gather inp idx = Inl RuntimeError"
proof -
  have "(inp ! k, idx ! k) \<in> set (zip inp idx)"
    using assms(1,2) by (auto simp: set_zip)
  moreover from assms(3)
  have "\<not> (case (inp ! k, idx ! k) of (row, j) \<Rightarrow> 0 \<le> j \<and> j < int (length row))"
    by auto
  ultimately
  have "\<not> list_all (\<lambda>(row, j). 0 \<le> j \<and> j < int (length row)) (zip inp idx)"
    unfolding list_all_iff by blast
  then show ?thesis by (simp add: gather_def)
qed

lemma learn_raises_on_bad_action:
  assumes "learn_Q_targets N a rewards next_states dones gamma = Inr Q_targets"
    and "forward_batch N (local_mode a) (qnetwork_local a) states = Inr local_values"
    and "k < length actions" and "k < length local_values"
    and "actions ! k < 0 \<or> int (length (local_values ! k)) \<le> actions ! k"
  shows "learn N a (states, actions, rewards, next_states, dones) gamma = (a, Some RuntimeError)"
  using assms(1,2) gather_out_of_range [OF assms(3,4,5)] by (simp add: learn_def)

text \<open>
  Claim C9 fails as stated: \<^verbatim>\<open>add\<close> builds the named tuple and appends it, and \<^verbatim>\<open>step\<close>
  compares no shape and no index with \<^verbatim>\<open>state_size\<close> or \<^verbatim>\<open>action_size\<close>. An agent for
  states of length \<open>2\<close> and two actions is given a state of length \<open>1\<close>, an empty next state
  and the action \<open>7\<close>: the call returns normally and the record is in the buffer.
\<close>

theorem step_accepts_mismatch:
  "state_size toy_agent = 2 \<and> action_size toy_agent = 2
   \<and> step toy toy_agent [1] 7 0 [] False zero_draws
      = (toy_agent\<lparr>t_step := 1,
            agent_memory := \<lparr>rb_action_size = 2,
               memory = [\<lparr>state = [1], action = 7, reward = 0, next_state = [], done_flag = False\<rparr>],
               maxlen = 100000, batch_size = 64\<rparr>\<rparr>, NotTriggered)"
  by (simp add: step_cases Let_def toy_agent_def add_def deque_append_def UPDATE_EVERY_def)

text \<open>
  Claim C9, amended. No record is checked at the call that passes it, whatever its shapes
  and its action:
  \<^item> \<^verbatim>\<open>add\<close> stores the record as given, as the newest of a buffer of positive capacity;
  \<^item> \<^verbatim>\<open>step\<close> stores it through \<^verbatim>\<open>add\<close>, and returns normally when the call does not
    trigger learning.

  Two later operations raise on such records:
  \<^item> \<^verbatim>\<open>sample\<close> raises \<^verbatim>\<open>ValueError\<close> when the records it draws do not all have states
    of one length, or next states of one length;
  \<^item> \<^verbatim>\<open>learn\<close> raises, and leaves the agent as it was, when the targets and the forward
    pass of the local network return and an action of the batch lies outside the row of
    action values.
\<close>

theorem mismatch_surfaces_later:
  "(0 < maxlen b \<longrightarrow>
      memory (add b s ac r s' d) \<noteq> []
      \<and> last (memory (add b s ac r s' d))
          = \<lparr>state = s, action = ac, reward = r, next_state = s', done_flag = d\<rparr>)
   \<and> agent_memory (fst (step N a s ac r s' d picks)) = add (agent_memory a) s ac r s' d
   \<and> (Suc (t_step a) mod UPDATE_EVERY \<noteq> 0 \<or> int (len (add (agent_memory a) s ac r s' d)) \<le> BATCH_SIZE
        \<longrightarrow> snd (step N a s ac r s' d picks) = NotTriggered)
   \<and> (\<not> one_length (map state (drawn b draws)) \<or> \<not> one_length (map next_state (drawn b draws))
        \<longrightarrow> snd (sample b draws) = Inl ValueError)
   \<and> (learn_Q_targets N a rewards next_states dones gamma = Inr Q_targets
        \<and> forward_batch N (local_mode a) (qnetwork_local a) states = Inr local_values
        \<and> k < length actions \<and> k < length local_values
        \<and> (actions ! k < 0 \<or> int (length (local_values ! k)) \<le> actions ! k)
        \<longrightarrow> learn N a (states, actions, rewards, next_states, dones) gamma = (a, Some RuntimeError))"
proof -
  have stored: "memory (add b s ac r s' d) \<noteq> []
      \<and> last (memory (add b s ac r s' d))
          = \<lparr>state = s, action = ac, reward = r, next_state = s', done_flag = d\<rparr>"
    if "0 < maxlen b"
  proof (cases "memory b")
    case Nil
    with that show ?thesis by (simp add: add_def deque_append_def)
  next
    case (Cons e es)
    then show ?thesis by (simp add: add_def deque_append_def Let_def)
  qed
  have quiet: "snd (step N a s ac r s' d picks) = NotTriggered"
    if "Suc (t_step a) mod UPDATE_EVERY \<noteq> 0 \<or> int (len (add (agent_memory a) s ac r s' d)) \<le> BATCH_SIZE"
    using that by (auto simp: step_cases Let_def)
  have later: "snd (sample b draws) = Inl ValueError"
    if "\<not> one_length (map state (drawn b draws)) \<or> \<not> one_length (map next_state (drawn b draws))"
    using that by (rule sample_not_stackable)
  have index: "learn N a (states, actions, rewards, next_states, dones) gamma = (a, Some RuntimeError)"
    if "learn_Q_targets N a rewards next_states dones gamma = Inr Q_targets"
      "forward_batch N (local_mode a) (qnetwork_local a) states = Inr local_values"
      "k < length actions" "k < length local_values"
      "actions ! k < 0 \<or> int (length (local_values ! k)) \<le> actions ! k"
    using that by (rule learn_raises_on_bad_action)
  from stored step_store [of N a s ac r s' d picks] quiet later index show ?thesis by blast
qed

theorem mismatch_surfaces_later_witness:
  "snd (step toy toy_agent [1] 7 0 [] False zero_draws) = NotTriggered
   \<and> last (memory (agent_memory (fst (step toy toy_agent [1] 7 0 [] False zero_draws))))
       = \<lparr>state = [1], action = 7, reward = 0, next_state = [], done_flag = False\<rparr>
   \<and> snd (sample \<lparr>rb_action_size = 2,
          memory = [\<lparr>state = [1], action = 7, reward = 0, next_state = [], done_flag = False\<rparr>,
                    \<lparr>state = [1, 2], action = 0, reward = 0, next_state = [1, 2], done_flag = False\<rparr>],
          maxlen = 100000, batch_size = 2\<rparr> zero_draws) = Inl ValueError
   \<and> learn toy toy_agent ([[1, 2]], [7], [1], [[3, 4]], [0]) GAMMA = (toy_agent, Some RuntimeError)"
proof -
  define b where "b = \<lparr>rb_action_size = 2,
          memory = [\<lparr>state = [1], action = 7, reward = 0, next_state = [], done_flag = False\<rparr>,
                    \<lparr>state = [1, 2], action = 0, reward = 0, next_state = [1, 2], done_flag = False\<rparr>],
          maxlen = 100000, batch_size = 2\<rparr>"
  note inst = mismatch_surfaces_later [where b = "agent_memory toy_agent" and s = "[1]" and ac = 7
      and r = 0 and s' = "[]" and d = False and N = toy and a = toy_agent and picks = zero_draws]
  note later = mismatch_surfaces_later [where b = b and draws = zero_draws
      and N = toy and a = toy_agent and s = "[]" and s' = "[]" and rewards = "[1]"
      and next_states = "[[3, 4]]" and dones = "[0]" and gamma = GAMMA
      and Q_targets = "[Finite (124 / 25)]" and states = "[[1, 2]]"
      and local_values = "[[Finite 1, Finite 2]]" and actions = "[7]" and k = 0]
  have cap: "0 < maxlen (agent_memory toy_agent)"
    by (simp add: toy_agent_def)
  have idle: "Suc (t_step toy_agent) mod UPDATE_EVERY \<noteq> 0"
    by (simp add: toy_agent_def UPDATE_EVERY_def)
  have "drawn b zero_draws =
      [\<lparr>state = [1], action = 7, reward = 0, next_state = [], done_flag = False\<rparr>,
       \<lparr>state = [1, 2], action = 0, reward = 0, next_state = [1, 2], done_flag = False\<rparr>]"
    by (simp add: drawn_def b_def random_sample_def randbelow_def zero_draws_def numeral_2_eq_2)
  then have ragged: "\<not> one_length (map state (drawn b zero_draws))"
    by (simp add: one_length_def)
  have qt: "learn_Q_targets toy toy_agent [1] [[3, 4]] [0] GAMMA = Inr [Finite (124 / 25)]"
    by (simp add: learn_Q_targets_def Q_targets_of_def broadcast_def scale_def one_minus_def
        toy_def toy_agent_def fmax_def fsub_def GAMMA_def f32_of_real_small)
  have lv: "forward_batch toy (local_mode toy_agent) (qnetwork_local toy_agent) [[1, 2]]
      = Inr [[Finite 1, Finite 2]]"
    by (simp add: toy_def toy_agent_def f32_of_real_small)
  have outside: "0 < length [7 :: int] \<and> 0 < length [[Finite 1, Finite 2]]
      \<and> ([7 :: int] ! 0 < 0 \<or> int (length ([[Finite 1, Finite 2]] ! 0)) \<le> [7] ! 0)"
    by simp
  from inst cap have "last (memory (add (agent_memory toy_agent) [1] 7 0 [] False))
      = \<lparr>state = [1], action = 7, reward = 0, next_state = [], done_flag = False\<rparr>"
    by blast
  moreover from inst
  have "agent_memory (fst (step toy toy_agent [1] 7 0 [] False zero_draws))
      = add (agent_memory toy_agent) [1] 7 0 [] False"
    by blast
  moreover from inst idle have "snd (step toy toy_agent [1] 7 0 [] False zero_draws) = NotTriggered"
    by blast
  moreover from later ragged have "snd (sample b zero_draws) = Inl ValueError"
    by blast
  moreover from later qt lv outside
  have "learn toy toy_agent ([[1, 2]], [7], [1], [[3, 4]], [0]) GAMMA = (toy_agent, Some RuntimeError)"
    by blast
  ultimately show ?thesis by (simp add: b_def)
qed

end
